theory Spec2Isabelle
  imports Complex_Main "HOL-Library.Word" "HOL-Library.Signed_Division"
begin

unbundle bit_operations_syntax

section \<open>A shallow embedding of the BMP decoder (reader.go)\<close>

text \<open>
  The decoder is written in Go. Its fixed-width unsigned integers (\<open>byte\<close>, \<open>uint16\<close>,
  \<open>uint32\<close>) are words of that width; \<open>int32\<close> fields are 32-bit words read with
  \<open>sint\<close>. Go's \<open>int\<close> is taken to be 64 bits wide and is modelled by \<open>int\<close>: every
  \<open>int\<close> the decoder computes is a sum, difference or product of an \<open>int32\<close> field
  with a \<open>uint16\<close> field or a constant of at most 32, which stays far inside the 64-bit
  range. The one exception, the shift \<open>1 << info.BitCount\<close>, is modelled on a 64-bit
  word. Go's \<open>/\<close> and \<open>%\<close> truncate towards zero (\<open>sdiv\<close>, \<open>smod\<close>). A run-time
  panic is the outcome \<open>Panic\<close>.
\<close>

type_synonym byte = "8 word"
type_synonym uint16 = "16 word"
type_synonym uint32 = "32 word"
type_synonym int32 = "32 word"

datatype 'a outcome = Panic | Return 'a

text \<open>The error values \<open>Decode\<close> can return: the two of \<open>io.ReadFull\<close>, the error of a
  failing \<open>Seek\<close>, and the three \<open>errors.New\<close> values of the source.\<close>

datatype error =
    EOF
  | ErrUnexpectedEOF
  | SeekError
  | InvalidSignature
  | UnsupportedHeader
  | UnsupportedBitDepth

definition is_io_error :: "error \<Rightarrow> bool" where
  "is_io_error e = (e = EOF \<or> e = ErrUnexpectedEOF \<or> e = SeekError)"

definition is_format_error :: "error \<Rightarrow> bool" where
  "is_format_error e = (e = InvalidSignature \<or> e = UnsupportedHeader \<or> e = UnsupportedBitDepth)"

subsection \<open>The input stream\<close>

text \<open>
  The \<open>io.Reader\<close> handed to \<open>Decode\<close> is an in-memory stream with a cursor. \<open>Decode\<close>
  asserts \<open>r.(io.Seeker)\<close>: the assertion panics on a reader that is no seeker
  (\<open>NotSeeker\<close>), and \<open>Seek\<close> itself returns an error on a stream that cannot be
  positioned, such as a pipe (\<open>SeekFails\<close>).
\<close>

datatype seeking = NotSeeker | SeekFails | SeekOk

record reader =
  content :: "byte list"
  pos :: nat
  seeker :: seeking

definition remaining :: "reader \<Rightarrow> byte list" where
  "remaining r = drop (pos r) (content r)"

text \<open>\<open>io.ReadFull(r, buf)\<close> with \<open>len(buf) = n\<close>: an empty buffer is filled without
  reading; a stream at its end gives \<open>io.EOF\<close>; a stream that ends inside the buffer
  gives \<open>io.ErrUnexpectedEOF\<close>.\<close>

definition ReadFull :: "reader \<Rightarrow> nat \<Rightarrow> (error + byte list) \<times> reader" where
  "ReadFull r n =
     (if n = 0 then (Inr [], r)
      else if n \<le> length (remaining r)
        then (Inr (take n (remaining r)), r\<lparr>pos := pos r + n\<rparr>)
      else if remaining r = [] then (Inl EOF, r)
      else (Inl ErrUnexpectedEOF, r\<lparr>pos := length (content r)\<rparr>))"

text \<open>\<open>Seek(offset, io.SeekStart)\<close> on the asserted seeker.\<close>

definition Seek :: "reader \<Rightarrow> nat \<Rightarrow> (error + unit) outcome \<times> reader" where
  "Seek r off =
     (case seeker r of
        NotSeeker \<Rightarrow> (Panic, r)
      | SeekFails \<Rightarrow> (Return (Inl SeekError), r)
      | SeekOk \<Rightarrow> (Return (Inr ()), r\<lparr>pos := off\<rparr>))"

text \<open>\<open>binary.LittleEndian.Uint16\<close> and \<open>Uint32\<close> on a slice of at least two (four)
  bytes; the callers below only pass slices of that length.\<close>

definition le16 :: "byte list \<Rightarrow> uint16" where
  "le16 b = ucast (b ! 0) OR push_bit 8 (ucast (b ! 1))"

definition le32 :: "byte list \<Rightarrow> uint32" where
  "le32 b = ucast (b ! 0) OR push_bit 8 (ucast (b ! 1))
            OR push_bit 16 (ucast (b ! 2)) OR push_bit 24 (ucast (b ! 3))"

text \<open>The slice expression \<open>b[lo:hi]\<close> for bounds inside the slice.\<close>

definition slice :: "'a list \<Rightarrow> nat \<Rightarrow> nat \<Rightarrow> 'a list" where
  "slice b lo hi = take (hi - lo) (drop lo b)"

subsection \<open>maskShift\<close>

text \<open>The first loop of \<open>maskShift\<close> skips the zero bits below the lowest set bit, the
  second counts the one bits that follow. Both shift the mask right until it is
  exhausted, so the value of the mask is the termination measure.\<close>

lemma unat_shr1_less: "m \<noteq> 0 \<Longrightarrow> unat (drop_bit 1 (m :: uint32)) < unat m"
proof -
  assume "m \<noteq> 0"
  then have "unat m \<noteq> 0" by (simp add: unat_eq_0)
  then have "unat m div 2 < unat m" by simp
  moreover have "unat (drop_bit 1 m) = unat m div 2"
    unfolding unat_drop_bit_eq by (simp add: drop_bit_eq_div)
  ultimately show ?thesis by simp
qed

function maskShift_skip :: "uint32 \<Rightarrow> int \<Rightarrow> uint32 \<times> int" where
  "maskShift_skip m shift =
     (if m AND 1 = 0 \<and> m \<noteq> 0 then maskShift_skip (drop_bit 1 m) (shift + 1)
      else (m, shift))"
  by pat_completeness auto
termination
  by (relation "measure (\<lambda>(m, s). unat m)") (auto simp del: One_nat_def intro!: unat_shr1_less)

function maskShift_count :: "uint32 \<Rightarrow> int \<Rightarrow> int" where
  "maskShift_count m bits =
     (if m AND 1 = 1 then maskShift_count (drop_bit 1 m) (bits + 1) else bits)"
  by pat_completeness auto
termination
  by (relation "measure (\<lambda>(m, s). unat m)") (auto simp del: One_nat_def intro!: unat_shr1_less)

declare maskShift_skip.simps [simp del] maskShift_count.simps [simp del]

definition maskShift :: "uint32 \<Rightarrow> int \<times> int" where
  "maskShift m =
     (if m = 0 then (0, 0)
      else let (m', shift) = maskShift_skip m 0
           in (shift, maskShift_count m' 0))"

subsection \<open>Headers and constants\<close>

definition bmpFileHeaderSize :: nat where "bmpFileHeaderSize = 14"
definition coreHeaderSize :: uint32 where "coreHeaderSize = 12"
definition infoHeaderSize :: uint32 where "infoHeaderSize = 40"
definition biRGB :: uint32 where "biRGB = 0"
definition biBitFields :: uint32 where "biBitFields = 3"

record FileHeader =
  Signature :: "byte list"
  FileSize :: uint32
  Reserved :: uint32
  DataOffset :: uint32

record InfoHeader =
  Size :: uint32
  Width :: int32
  Height :: int32
  Planes :: uint16
  BitCount :: uint16
  Compression :: uint32
  SizeImage :: uint32
  XPelsPerMeter :: int32
  YPelsPerMeter :: int32
  ClrUsed :: uint32
  ClrImportant :: uint32
  RedMask :: uint32
  GreenMask :: uint32
  BlueMask :: uint32
  AlphaMask :: uint32

text \<open>The zero value of \<open>var info InfoHeader\<close>.\<close>

definition zeroInfoHeader :: InfoHeader where
  "zeroInfoHeader =
     \<lparr>Size = 0, Width = 0, Height = 0, Planes = 0, BitCount = 0, Compression = 0,
      SizeImage = 0, XPelsPerMeter = 0, YPelsPerMeter = 0, ClrUsed = 0, ClrImportant = 0,
      RedMask = 0, GreenMask = 0, BlueMask = 0, AlphaMask = 0\<rparr>"

text \<open>The locals \<open>width := int(info.Width)\<close> and \<open>height := int(info.Height)\<close>, the
  latter negated when negative, as each decoder but the 24-bit one computes them.\<close>

definition widthOf :: "InfoHeader \<Rightarrow> int" where
  "widthOf info = sint (Width info)"

definition heightOf :: "InfoHeader \<Rightarrow> int" where
  "heightOf info = (let height = sint (Height info) in if height < 0 then - height else height)"

text \<open>\<open>targetY\<close>: \<open>y\<close>, replaced by \<open>height - 1 - y\<close> when \<open>info.Height > 0\<close>.\<close>

definition targetRow :: "InfoHeader \<Rightarrow> int \<Rightarrow> int \<Rightarrow> int" where
  "targetRow info height y = (if 0 < sint (Height info) then height - 1 - y else y)"

subsection \<open>Colours and images of the standard library\<close>

text \<open>
  \<open>color.RGBA\<close> and \<open>color.RGBA64\<close> are records of their four channels. An image of
  package \<open>image\<close> is modelled by what its accessors observe: its bounds and the value
  stored at each point. A setter (\<open>SetColorIndex\<close>, \<open>SetRGBA64\<close>, \<open>Set\<close> with a
  \<open>color.RGBA\<close>) writes a point inside the bounds and ignores a point outside;
  a fresh image holds zeros. \<open>image.Rect\<close> orders its corners. The constructors
  (\<open>NewPaletted\<close>, \<open>NewRGBA64\<close>, \<open>NewRGBA\<close>) panic in two places: in
  \<open>pixelBufferLength\<close> when the buffer length \<open>bytesPerPixel * Dx * Dy\<close> overflows
  \<open>int\<close>, and in the \<open>make\<close> of the buffer (\<open>makeslice: len out of range\<close>) when the
  length exceeds the largest allocation of the runtime, \<open>maxAlloc\<close>, which is \<open>2^48\<close>
  bytes on the 64-bit platforms the model assumes. The row buffers of the decoders and
  the palette stay far below that size (an \<open>int32\<close> width times at most 4 bytes, at
  most \<open>2^32\<close> entries of 16 bytes), so their \<open>make\<close> can only panic on a negative
  length. An allocation below \<open>maxAlloc\<close> that the machine cannot serve ends the
  process and is outside the model.
\<close>

definition maxAlloc :: int where "maxAlloc = 2 ^ 48"

record color_RGBA =
  R8 :: byte
  G8 :: byte
  B8 :: byte
  A8 :: byte

record color_RGBA64 =
  R16 :: uint16
  G16 :: uint16
  B16 :: uint16
  A16 :: uint16

record Rectangle =
  MinX :: int
  MinY :: int
  MaxX :: int
  MaxY :: int

definition Rect :: "int \<Rightarrow> int \<Rightarrow> int \<Rightarrow> int \<Rightarrow> Rectangle" where
  "Rect x0 y0 x1 y1 =
     \<lparr>MinX = (if x0 > x1 then x1 else x0), MinY = (if y0 > y1 then y1 else y0),
      MaxX = (if x0 > x1 then x0 else x1), MaxY = (if y0 > y1 then y0 else y1)\<rparr>"

definition Dx :: "Rectangle \<Rightarrow> int" where "Dx r = MaxX r - MinX r"
definition Dy :: "Rectangle \<Rightarrow> int" where "Dy r = MaxY r - MinY r"

definition In_rect :: "int \<Rightarrow> int \<Rightarrow> Rectangle \<Rightarrow> bool" where
  "In_rect x y r = (MinX r \<le> x \<and> x < MaxX r \<and> MinY r \<le> y \<and> y < MaxY r)"

record 'p pixbuf =
  Bounds :: Rectangle
  Pix :: "int \<times> int \<Rightarrow> 'p"

definition NewPix :: "int \<Rightarrow> Rectangle \<Rightarrow> 'p \<Rightarrow> 'p pixbuf outcome" where
  "NewPix bytesPerPixel r zero =
     (let totalLength = bytesPerPixel * Dx r * Dy r
      in if totalLength \<ge> 2 ^ 63 then Panic
         else if totalLength > maxAlloc then Panic
         else Return \<lparr>Bounds = r, Pix = (\<lambda>_. zero)\<rparr>)"

definition SetPix :: "'p pixbuf \<Rightarrow> int \<Rightarrow> int \<Rightarrow> 'p \<Rightarrow> 'p pixbuf" where
  "SetPix img x y c =
     (if In_rect x y (Bounds img) then img\<lparr>Pix := (Pix img)((x, y) := c)\<rparr> else img)"

text \<open>\<open>At\<close>: the stored value inside the bounds, the zero value outside.\<close>

definition PixAt :: "'p pixbuf \<Rightarrow> 'p \<Rightarrow> int \<Rightarrow> int \<Rightarrow> 'p" where
  "PixAt img zero x y = (if In_rect x y (Bounds img) then Pix img (x, y) else zero)"

definition zeroRGBA :: color_RGBA where
  "zeroRGBA = \<lparr>R8 = 0, G8 = 0, B8 = 0, A8 = 0\<rparr>"

definition zeroRGBA64 :: color_RGBA64 where
  "zeroRGBA64 = \<lparr>R16 = 0, G16 = 0, B16 = 0, A16 = 0\<rparr>"

text \<open>The three image types \<open>decodePixelData\<close> allocates; \<open>image.Paletted\<close> carries its
  palette.\<close>

datatype image =
    image_Paletted "byte pixbuf" "color_RGBA list"
  | image_RGBA64 "color_RGBA64 pixbuf"
  | image_RGBA "color_RGBA pixbuf"

subsection \<open>parsePalette\<close>

text \<open>The loop \<open>for i := 0; i < entries; i++\<close>, writing \<open>palette[i]\<close> in the slice
  allocated before it. On a short read the function returns no palette.\<close>

function parsePalette_loop ::
  "reader \<Rightarrow> int \<Rightarrow> int \<Rightarrow> color_RGBA list \<Rightarrow> (error + color_RGBA list) \<times> reader" where
  "parsePalette_loop r i entries palette =
     (if i < entries then
        (case ReadFull r 4 of
           (Inl e, r') \<Rightarrow> (Inl e, r')
         | (Inr bgr, r') \<Rightarrow>
             parsePalette_loop r' (i + 1) entries
               (palette[nat i := \<lparr>R8 = bgr ! 2, G8 = bgr ! 1, B8 = bgr ! 0, A8 = 255\<rparr>]))
      else (Inr palette, r))"
  by pat_completeness auto
termination
  by (relation "measure (\<lambda>(r, i, entries, palette). nat (entries - i))") auto

declare parsePalette_loop.simps [simp del]

text \<open>\<open>entries := 1 << info.BitCount\<close> is a shift of the \<open>int\<close> constant 1 by a
  \<open>uint16\<close> count: 0 from 64 bits on, negative at 63. A colour count above zero
  replaces it.\<close>

definition paletteEntries :: "InfoHeader \<Rightarrow> int" where
  "paletteEntries info =
     (let entries = sint (push_bit (unat (BitCount info)) (1 :: 64 word))
      in if 0 < ClrUsed info then uint (ClrUsed info) else entries)"

text \<open>\<open>make\<close> panics on a negative length.\<close>

definition parsePalette ::
  "reader \<Rightarrow> InfoHeader \<Rightarrow> ((error + color_RGBA list) \<times> reader) outcome" where
  "parsePalette r info =
     (if 8 < BitCount info \<and> ClrUsed info = 0 then Return (Inr [], r)
      else
        let entries = paletteEntries info
        in if entries < 0 then Panic
           else Return (parsePalette_loop r 0 entries (replicate (nat entries) zeroRGBA)))"

subsection \<open>Scanline lengths\<close>

text \<open>The \<open>bytesPerRow\<close> expressions of the four decoders. \<open>&^ 3\<close> clears the two low
  bits.\<close>

definition bytesPerRowIndexed :: "int \<Rightarrow> int \<Rightarrow> int" where
  "bytesPerRowIndexed width bitsPerPixel = (width * bitsPerPixel + 31) sdiv 32 * 4"

definition bytesPerRow16 :: "int \<Rightarrow> int" where
  "bytesPerRow16 width = (width * 2 + 3) AND NOT 3"

definition bytesPerRow24 :: "int \<Rightarrow> int" where
  "bytesPerRow24 width = (width * 3 + 3) AND NOT 3"

definition bytesPerRow32 :: "int \<Rightarrow> int" where
  "bytesPerRow32 width = width * 4"

subsection \<open>readIndexedData\<close>

text \<open>
  The body of the inner loop up to \<open>idx\<close>. \<open>bitMask\<close> is
  \<open>byte(1<<bitsPerPixel - 1)\<close>, a shift and a subtraction on \<open>byte\<close>. The division
  \<open>x / pixelsPerByte\<close> panics when \<open>pixelsPerByte\<close> is zero, and \<open>row[bytePos]\<close>
  panics outside the row. \<open>x\<close> is never negative, so neither is the operand of the
  conversion to \<open>uint\<close>.
\<close>

definition indexedPixel :: "InfoHeader \<Rightarrow> byte list \<Rightarrow> int \<Rightarrow> byte outcome" where
  "indexedPixel info row x =
     (let bitsPerPixel = uint (BitCount info);
          pixelsPerByte = 8 sdiv bitsPerPixel;
          bitMask = push_bit (nat bitsPerPixel) (1 :: byte) - 1
      in if pixelsPerByte = 0 then Panic
         else
           let bytePos = x sdiv pixelsPerByte;
               bitOffset = (x smod pixelsPerByte) * bitsPerPixel;
               bitOffset = (if BitCount info = 1 then 7 - bitOffset else bitOffset)
           in if bytePos < 0 \<or> int (length row) \<le> bytePos then Panic
              else
                let b = row ! nat bytePos
                in Return (drop_bit (nat bitOffset) b AND bitMask))"

text \<open>The inner loop over \<open>x\<close>: \<open>img.SetColorIndex(x, targetY, idx)\<close>.\<close>

function readIndexedData_cols ::
  "byte pixbuf \<Rightarrow> InfoHeader \<Rightarrow> byte list \<Rightarrow> int \<Rightarrow> int \<Rightarrow> byte pixbuf outcome" where
  "readIndexedData_cols img info row targetY x =
     (if x < widthOf info then
        (case indexedPixel info row x of
           Panic \<Rightarrow> Panic
         | Return idx \<Rightarrow>
             readIndexedData_cols (SetPix img x targetY idx) info row targetY (x + 1))
      else Return img)"
  by pat_completeness auto
termination
  by (relation "measure (\<lambda>(img, info, row, targetY, x). nat (widthOf info - x))") auto

declare readIndexedData_cols.simps [simp del]

text \<open>The outer loop over \<open>y\<close>: a short read returns the error at once.\<close>

function readIndexedData_rows ::
  "reader \<Rightarrow> byte pixbuf \<Rightarrow> InfoHeader \<Rightarrow> nat \<Rightarrow> int
     \<Rightarrow> ((byte pixbuf \<times> error option) \<times> reader) outcome" where
  "readIndexedData_rows r img info bytesPerRow y =
     (if y < heightOf info then
        (case ReadFull r bytesPerRow of
           (Inl e, r') \<Rightarrow> Return ((img, Some e), r')
         | (Inr row, r') \<Rightarrow>
             (case readIndexedData_cols img info row (targetRow info (heightOf info) y) 0 of
                Panic \<Rightarrow> Panic
              | Return img' \<Rightarrow> readIndexedData_rows r' img' info bytesPerRow (y + 1)))
      else Return ((img, None), r))"
  by pat_completeness auto
termination
  by (relation "measure (\<lambda>(r, img, info, bytesPerRow, y). nat (heightOf info - y))") auto

declare readIndexedData_rows.simps [simp del]

text \<open>\<open>8 / bitsPerPixel\<close> panics for a zero bit count and \<open>make\<close> for a negative row
  length. The function returns its error; the image it filled is its argument, returned
  here with the error.\<close>

definition readIndexedData ::
  "reader \<Rightarrow> byte pixbuf \<Rightarrow> InfoHeader \<Rightarrow> ((byte pixbuf \<times> error option) \<times> reader) outcome" where
  "readIndexedData r img info =
     (let width = widthOf info;
          bitsPerPixel = uint (BitCount info)
      in if bitsPerPixel = 0 then Panic
         else
           let bytesPerRow = bytesPerRowIndexed width bitsPerPixel
           in if bytesPerRow < 0 then Panic
              else readIndexedData_rows r img info (nat bytesPerRow) 0)"

subsection \<open>read16BitData\<close>

text \<open>
  One channel of a 16-bit pixel: mask, shift down, shift up to the top of 16 bits, then
  OR in the value shifted right by the channel width. The shift and width come from
  \<open>maskShift\<close>, which the source calls once per mask before the loops. A negative
  shift count \<open>16 - bits\<close> panics.
\<close>

definition channel16 :: "uint16 \<Rightarrow> uint32 \<Rightarrow> uint32 outcome" where
  "channel16 pixel m =
     (let (shift, bits) = maskShift m;
          c = ucast pixel AND m
      in if 16 - bits < 0 then Panic
         else
           let c = push_bit (nat (16 - bits)) (drop_bit (nat shift) c)
           in Return (c OR drop_bit (nat bits) c))"

text \<open>The body of the inner loop: the little-endian pixel word and its three channels,
  truncated to \<open>uint16\<close>, with full alpha. The slice \<open>row[x*2 : x*2+2]\<close> panics outside
  the row.\<close>

definition pixel16 ::
  "uint32 \<Rightarrow> uint32 \<Rightarrow> uint32 \<Rightarrow> byte list \<Rightarrow> int \<Rightarrow> color_RGBA64 outcome" where
  "pixel16 redMask greenMask blueMask row x =
     (if x * 2 < 0 \<or> int (length row) < x * 2 + 2 then Panic
      else
        let pixel = le16 (slice row (nat (x * 2)) (nat (x * 2 + 2)))
        in case channel16 pixel redMask of
             Panic \<Rightarrow> Panic
           | Return r \<Rightarrow>
               (case channel16 pixel greenMask of
                  Panic \<Rightarrow> Panic
                | Return g \<Rightarrow>
                    (case channel16 pixel blueMask of
                       Panic \<Rightarrow> Panic
                     | Return b \<Rightarrow>
                         Return \<lparr>R16 = ucast r, G16 = ucast g, B16 = ucast b, A16 = 0xFFFF\<rparr>)))"

function read16BitData_cols ::
  "color_RGBA64 pixbuf \<Rightarrow> int \<Rightarrow> uint32 \<Rightarrow> uint32 \<Rightarrow> uint32 \<Rightarrow> byte list \<Rightarrow> int \<Rightarrow> int
     \<Rightarrow> color_RGBA64 pixbuf outcome" where
  "read16BitData_cols img width redMask greenMask blueMask row targetY x =
     (if x < width then
        (case pixel16 redMask greenMask blueMask row x of
           Panic \<Rightarrow> Panic
         | Return c \<Rightarrow>
             read16BitData_cols (SetPix img x targetY c) width redMask greenMask blueMask row
               targetY (x + 1))
      else Return img)"
  by pat_completeness auto
termination
  by (relation "measure (\<lambda>(img, width, rm, gm, bm, row, targetY, x). nat (width - x))") auto

declare read16BitData_cols.simps [simp del]

function read16BitData_rows ::
  "reader \<Rightarrow> color_RGBA64 pixbuf \<Rightarrow> InfoHeader \<Rightarrow> uint32 \<Rightarrow> uint32 \<Rightarrow> uint32 \<Rightarrow> nat \<Rightarrow> int
     \<Rightarrow> ((color_RGBA64 pixbuf option \<times> error option) \<times> reader) outcome" where
  "read16BitData_rows r img info redMask greenMask blueMask bytesPerRow y =
     (if y < heightOf info then
        (case ReadFull r bytesPerRow of
           (Inl e, r') \<Rightarrow> Return ((None, Some e), r')
         | (Inr row, r') \<Rightarrow>
             (case read16BitData_cols img (widthOf info) redMask greenMask blueMask row
                     (targetRow info (heightOf info) y) 0 of
                Panic \<Rightarrow> Panic
              | Return img' \<Rightarrow>
                  read16BitData_rows r' img' info redMask greenMask blueMask bytesPerRow (y + 1)))
      else Return ((Some img, None), r))"
  by pat_completeness auto
termination
  by (relation "measure (\<lambda>(r, img, info, rm, gm, bm, bytesPerRow, y). nat (heightOf info - y))")
    auto

declare read16BitData_rows.simps [simp del]

definition read16BitData ::
  "reader \<Rightarrow> color_RGBA64 pixbuf \<Rightarrow> InfoHeader
     \<Rightarrow> ((color_RGBA64 pixbuf option \<times> error option) \<times> reader) outcome" where
  "read16BitData r img info =
     (let width = widthOf info;
          redMask = (if Compression info = biBitFields then RedMask info else 0xF800);
          greenMask = (if Compression info = biBitFields then GreenMask info else 0x07E0);
          blueMask = (if Compression info = biBitFields then BlueMask info else 0x001F);
          bytesPerRow = bytesPerRow16 width
      in if bytesPerRow < 0 then Panic
         else read16BitData_rows r img info redMask greenMask blueMask (nat bytesPerRow) 0)"

subsection \<open>read32BitData\<close>

text \<open>\<open>byte((pixel & mask) >> shift)\<close>, the shift taken from \<open>maskShift\<close>.\<close>

definition channel32 :: "uint32 \<Rightarrow> uint32 \<Rightarrow> byte" where
  "channel32 pixel m = ucast (drop_bit (nat (fst (maskShift m))) (pixel AND m))"

text \<open>The body of the inner loop; a zero alpha mask gives full alpha.\<close>

definition pixel32 ::
  "uint32 \<Rightarrow> uint32 \<Rightarrow> uint32 \<Rightarrow> uint32 \<Rightarrow> byte list \<Rightarrow> int \<Rightarrow> color_RGBA outcome" where
  "pixel32 redMask greenMask blueMask alphaMask row x =
     (if x * 4 < 0 \<or> int (length row) < x * 4 + 4 then Panic
      else
        let pixel = le32 (slice row (nat (x * 4)) (nat (x * 4 + 4)));
            r = channel32 pixel redMask;
            g = channel32 pixel greenMask;
            b = channel32 pixel blueMask;
            a = channel32 pixel alphaMask;
            a = (if alphaMask = 0 then 0xFF else a)
        in Return \<lparr>R8 = r, G8 = g, B8 = b, A8 = a\<rparr>)"

function read32BitData_cols ::
  "color_RGBA pixbuf \<Rightarrow> int \<Rightarrow> uint32 \<Rightarrow> uint32 \<Rightarrow> uint32 \<Rightarrow> uint32 \<Rightarrow> byte list \<Rightarrow> int \<Rightarrow> int
     \<Rightarrow> color_RGBA pixbuf outcome" where
  "read32BitData_cols img width redMask greenMask blueMask alphaMask row targetY x =
     (if x < width then
        (case pixel32 redMask greenMask blueMask alphaMask row x of
           Panic \<Rightarrow> Panic
         | Return c \<Rightarrow>
             read32BitData_cols (SetPix img x targetY c) width redMask greenMask blueMask
               alphaMask row targetY (x + 1))
      else Return img)"
  by pat_completeness auto
termination
  by (relation "measure (\<lambda>(img, width, rm, gm, bm, am, row, targetY, x). nat (width - x))") auto

declare read32BitData_cols.simps [simp del]

function read32BitData_rows ::
  "reader \<Rightarrow> color_RGBA pixbuf \<Rightarrow> InfoHeader \<Rightarrow> uint32 \<Rightarrow> uint32 \<Rightarrow> uint32 \<Rightarrow> uint32 \<Rightarrow> nat \<Rightarrow> int
     \<Rightarrow> ((color_RGBA pixbuf option \<times> error option) \<times> reader) outcome" where
  "read32BitData_rows r img info redMask greenMask blueMask alphaMask bytesPerRow y =
     (if y < heightOf info then
        (case ReadFull r bytesPerRow of
           (Inl e, r') \<Rightarrow> Return ((None, Some e), r')
         | (Inr row, r') \<Rightarrow>
             (case read32BitData_cols img (widthOf info) redMask greenMask blueMask alphaMask row
                     (targetRow info (heightOf info) y) 0 of
                Panic \<Rightarrow> Panic
              | Return img' \<Rightarrow>
                  read32BitData_rows r' img' info redMask greenMask blueMask alphaMask
                    bytesPerRow (y + 1)))
      else Return ((Some img, None), r))"
  by pat_completeness auto
termination
  by (relation
        "measure (\<lambda>(r, img, info, rm, gm, bm, am, bytesPerRow, y). nat (heightOf info - y))")
    auto

declare read32BitData_rows.simps [simp del]

definition read32BitData ::
  "reader \<Rightarrow> color_RGBA pixbuf \<Rightarrow> InfoHeader
     \<Rightarrow> ((color_RGBA pixbuf option \<times> error option) \<times> reader) outcome" where
  "read32BitData r img info =
     (let width = widthOf info;
          redMask = (if Compression info = biBitFields then RedMask info else 0x00FF0000);
          greenMask = (if Compression info = biBitFields then GreenMask info else 0x0000FF00);
          blueMask = (if Compression info = biBitFields then BlueMask info else 0x000000FF);
          alphaMask = (if Compression info = biBitFields then AlphaMask info else 0xFF000000);
          bytesPerRow = bytesPerRow32 width
      in if bytesPerRow < 0 then Panic
         else read32BitData_rows r img info redMask greenMask blueMask alphaMask
                (nat bytesPerRow) 0)"

subsection \<open>read24BitData\<close>

text \<open>This decoder uses \<open>int(info.Width)\<close> and \<open>int(info.Height)\<close> as they are: the
  height is not negated when negative.\<close>

text \<open>The body of the inner loop: three bytes at \<open>offset\<close>, blue first.\<close>

definition pixel24 :: "byte list \<Rightarrow> int \<Rightarrow> color_RGBA outcome" where
  "pixel24 row x =
     (let offset = x * 3
      in if offset < 0 \<or> int (length row) \<le> offset + 2 then Panic
         else Return \<lparr>R8 = row ! nat (offset + 2), G8 = row ! nat (offset + 1),
                       B8 = row ! nat offset, A8 = 255\<rparr>)"

function read24BitData_cols ::
  "color_RGBA pixbuf \<Rightarrow> InfoHeader \<Rightarrow> byte list \<Rightarrow> int \<Rightarrow> int \<Rightarrow> color_RGBA pixbuf outcome" where
  "read24BitData_cols img info row targetY x =
     (if x < sint (Width info) then
        (case pixel24 row x of
           Panic \<Rightarrow> Panic
         | Return c \<Rightarrow> read24BitData_cols (SetPix img x targetY c) info row targetY (x + 1))
      else Return img)"
  by pat_completeness auto
termination
  by (relation "measure (\<lambda>(img, info, row, targetY, x). nat (sint (Width info) - x))") auto

declare read24BitData_cols.simps [simp del]

function read24BitData_rows ::
  "reader \<Rightarrow> color_RGBA pixbuf \<Rightarrow> InfoHeader \<Rightarrow> nat \<Rightarrow> int
     \<Rightarrow> ((color_RGBA pixbuf option \<times> error option) \<times> reader) outcome" where
  "read24BitData_rows r img info bytesPerRow y =
     (if y < sint (Height info) then
        (case ReadFull r bytesPerRow of
           (Inl e, r') \<Rightarrow> Return ((None, Some e), r')
         | (Inr row, r') \<Rightarrow>
             (case read24BitData_cols img info row
                     (targetRow info (sint (Height info)) y) 0 of
                Panic \<Rightarrow> Panic
              | Return img' \<Rightarrow> read24BitData_rows r' img' info bytesPerRow (y + 1)))
      else Return ((Some img, None), r))"
  by pat_completeness auto
termination
  by (relation "measure (\<lambda>(r, img, info, bytesPerRow, y). nat (sint (Height info) - y))") auto

declare read24BitData_rows.simps [simp del]

definition read24BitData ::
  "reader \<Rightarrow> color_RGBA pixbuf \<Rightarrow> InfoHeader
     \<Rightarrow> ((color_RGBA pixbuf option \<times> error option) \<times> reader) outcome" where
  "read24BitData r img info =
     (let bytesPerRow = bytesPerRow24 (sint (Width info))
      in if bytesPerRow < 0 then Panic
         else read24BitData_rows r img info (nat bytesPerRow) 0)"

subsection \<open>decodePixelData\<close>

text \<open>The dispatch on the bit count. The indexed branch returns the image together with
  whatever error \<open>readIndexedData\<close> returned (\<open>return img, err\<close>); the other branches
  return what their decoder returns.\<close>

definition decodePixelData ::
  "reader \<Rightarrow> InfoHeader \<Rightarrow> color_RGBA list
     \<Rightarrow> ((image option \<times> error option) \<times> reader) outcome" where
  "decodePixelData r info palette =
     (let width = widthOf info;
          height = heightOf info;
          rect = Rect 0 0 width height
      in if BitCount info = 1 \<or> BitCount info = 4 \<or> BitCount info = 8 then
           (case NewPix 1 rect 0 of
              Panic \<Rightarrow> Panic
            | Return img \<Rightarrow>
                (case readIndexedData r img info of
                   Panic \<Rightarrow> Panic
                 | Return ((img', err), r') \<Rightarrow>
                     Return ((Some (image_Paletted img' palette), err), r')))
         else if BitCount info = 16 then
           (case NewPix 8 rect zeroRGBA64 of
              Panic \<Rightarrow> Panic
            | Return img \<Rightarrow>
                (case read16BitData r img info of
                   Panic \<Rightarrow> Panic
                 | Return ((img', err), r') \<Rightarrow> Return ((map_option image_RGBA64 img', err), r')))
         else if BitCount info = 24 then
           (case NewPix 4 rect zeroRGBA of
              Panic \<Rightarrow> Panic
            | Return img \<Rightarrow>
                (case read24BitData r img info of
                   Panic \<Rightarrow> Panic
                 | Return ((img', err), r') \<Rightarrow> Return ((map_option image_RGBA img', err), r')))
         else if BitCount info = 32 then
           (case NewPix 4 rect zeroRGBA of
              Panic \<Rightarrow> Panic
            | Return img \<Rightarrow>
                (case read32BitData r img info of
                   Panic \<Rightarrow> Panic
                 | Return ((img', err), r') \<Rightarrow> Return ((map_option image_RGBA img', err), r')))
         else Return ((None, Some UnsupportedBitDepth), r))"

subsection \<open>Decode\<close>

text \<open>The \<open>switch headerSize\<close> of \<open>Decode\<close>: the 12-byte core header holds four
  \<open>uint16\<close> fields, widened to \<open>int32\<close> without sign; of the 40-byte header the
  first 16 of the remaining 36 bytes are used. \<open>ClrUsed\<close> is assigned in neither
  branch.\<close>

definition readInfoHeader :: "reader \<Rightarrow> uint32 \<Rightarrow> (error + InfoHeader) \<times> reader" where
  "readInfoHeader r headerSize =
     (let info = zeroInfoHeader\<lparr>Size := headerSize\<rparr>
      in if headerSize = coreHeaderSize then
           (case ReadFull r 8 of
              (Inl e, r') \<Rightarrow> (Inl e, r')
            | (Inr core, r') \<Rightarrow>
                (Inr (info\<lparr>Width := ucast (le16 (slice core 0 2)),
                           Height := ucast (le16 (slice core 2 4)),
                           Planes := le16 (slice core 4 6),
                           BitCount := le16 (slice core 6 8),
                           Compression := biRGB\<rparr>), r'))
         else if headerSize = infoHeaderSize then
           (case ReadFull r (unat (infoHeaderSize - 4)) of
              (Inl e, r') \<Rightarrow> (Inl e, r')
            | (Inr remainingHeader, r') \<Rightarrow>
                (Inr (info\<lparr>Width := le32 (slice remainingHeader 0 4),
                           Height := le32 (slice remainingHeader 4 8),
                           Planes := le16 (slice remainingHeader 8 10),
                           BitCount := le16 (slice remainingHeader 10 12),
                           Compression := le32 (slice remainingHeader 12 16)\<rparr>), r'))
         else (Inl UnsupportedHeader, r))"

text \<open>The four masks read when \<open>info.Compression == biBitFields\<close>.\<close>

definition readMasks :: "reader \<Rightarrow> InfoHeader \<Rightarrow> (error + InfoHeader) \<times> reader" where
  "readMasks r info =
     (case ReadFull r 16 of
        (Inl e, r') \<Rightarrow> (Inl e, r')
      | (Inr masks, r') \<Rightarrow>
          (Inr (info\<lparr>RedMask := le32 (slice masks 0 4), GreenMask := le32 (slice masks 4 8),
                     BlueMask := le32 (slice masks 8 12),
                     AlphaMask := le32 (slice masks 12 16)\<rparr>), r'))"

text \<open>The file header is 14 bytes: the signature, then three little-endian
  \<open>uint32\<close>.\<close>

definition readFileHeader :: "reader \<Rightarrow> (error + FileHeader) \<times> reader" where
  "readFileHeader r =
     (case ReadFull r 14 of
        (Inl e, r') \<Rightarrow> (Inl e, r')
      | (Inr b, r') \<Rightarrow>
          (Inr \<lparr>Signature = slice b 0 2, FileSize = le32 (slice b 2 6),
                Reserved = le32 (slice b 6 10), DataOffset = le32 (slice b 10 14)\<rparr>, r'))"

definition Decode :: "reader \<Rightarrow> ((image option \<times> error option) \<times> reader) outcome" where
  "Decode r =
     (case readFileHeader r of
        (Inl e, r1) \<Rightarrow> Return ((None, Some e), r1)
      | (Inr fileHeader, r1) \<Rightarrow>
          if Signature fileHeader \<noteq> [0x42, 0x4D] then Return ((None, Some InvalidSignature), r1)
          else
            (case ReadFull r1 4 of
               (Inl e, r2) \<Rightarrow> Return ((None, Some e), r2)
             | (Inr hs, r2) \<Rightarrow>
                 (case readInfoHeader r2 (le32 hs) of
                    (Inl e, r3) \<Rightarrow> Return ((None, Some e), r3)
                  | (Inr info, r3) \<Rightarrow>
                      (case parsePalette r3 info of
                         Panic \<Rightarrow> Panic
                       | Return (Inl e, r4) \<Rightarrow> Return ((None, Some e), r4)
                       | Return (Inr palette, r4) \<Rightarrow>
                           (case (if Compression info = biBitFields then readMasks r4 info
                                  else (Inr info, r4)) of
                              (Inl e, r5) \<Rightarrow> Return ((None, Some e), r5)
                            | (Inr info', r5) \<Rightarrow>
                                (case Seek r5 (unat (DataOffset fileHeader)) of
                                   (Panic, r6) \<Rightarrow> Panic
                                 | (Return (Inl e), r6) \<Rightarrow> Return ((None, Some e), r6)
                                 | (Return (Inr u), r6) \<Rightarrow>
                                     decodePixelData r6 info' palette))))))"

text \<open>The image and the error of a call that returned.\<close>

definition imageOf :: "((image option \<times> error option) \<times> reader) outcome \<Rightarrow> image option" where
  "imageOf res = (case res of Panic \<Rightarrow> None | Return ((img, err), r) \<Rightarrow> img)"

definition errorOf :: "((image option \<times> error option) \<times> reader) outcome \<Rightarrow> error option" where
  "errorOf res = (case res of Panic \<Rightarrow> None | Return ((img, err), r) \<Rightarrow> err)"

section \<open>Properties\<close>

subsection \<open>Mask analysis\<close>

lemma and1_eq0_iff: "(m :: uint32) AND 1 = 0 \<longleftrightarrow> \<not> bit m 0"
  by (simp add: and_one_eq bit_0 mod_2_eq_odd)

lemma and1_eq1_iff: "(m :: uint32) AND 1 = 1 \<longleftrightarrow> bit m 0"
  by (simp add: and_one_eq bit_0 mod_2_eq_odd)

lemma shr1_nonzero: "(m :: uint32) \<noteq> 0 \<Longrightarrow> \<not> bit m 0 \<Longrightarrow> drop_bit 1 m \<noteq> 0"
proof
  assume m: "m \<noteq> 0" and b0: "\<not> bit m 0" and z: "drop_bit 1 m = 0"
  have "bit m n = False" for n
  proof (cases n)
    case 0 then show ?thesis using b0 by simp
  next
    case (Suc k)
    have "bit (drop_bit 1 m) k = False" using z by simp
    then show ?thesis using Suc by (simp add: bit_drop_bit_eq)
  qed
  then have "m = 0" by (intro bit_eqI) simp
  with m show False by simp
qed

lemma maskShift_skip_spec:
  "m \<noteq> 0 \<Longrightarrow>
   \<exists>k. maskShift_skip m s = (drop_bit k m, s + int k) \<and> bit m k \<and> (\<forall>i<k. \<not> bit m i)"
proof (induction m s rule: maskShift_skip.induct)
  case (1 m shift)
  show ?case
  proof (cases "bit m 0")
    case True
    then have "maskShift_skip m shift = (m, shift)"
      by (subst maskShift_skip.simps) (simp add: and1_eq0_iff)
    with True show ?thesis by (intro exI [of _ 0]) simp
  next
    case False
    with "1.prems" have nz: "drop_bit 1 m \<noteq> 0" by (rule shr1_nonzero [rotated -1, rotated])
    have cond: "m AND 1 = 0 \<and> m \<noteq> 0" using False "1.prems" by (simp add: and1_eq0_iff)
    from "1.IH" [OF cond nz] obtain k where
      k: "maskShift_skip (drop_bit 1 m) (shift + 1) = (drop_bit k (drop_bit 1 m), shift + 1 + int k)"
         "bit (drop_bit 1 m) k" "\<forall>i<k. \<not> bit (drop_bit 1 m) i"
      by blast
    have eq: "maskShift_skip m shift = maskShift_skip (drop_bit 1 m) (shift + 1)"
      using cond by (subst maskShift_skip.simps) simp
    have low: "\<not> bit m i" if "i < Suc k" for i
    proof (cases i)
      case 0 then show ?thesis using False by simp
    next
      case (Suc j)
      with that have "j < k" by simp
      with k(3) have "\<not> bit (drop_bit 1 m) j" by blast
      then show ?thesis using Suc by (simp add: bit_drop_bit_eq)
    qed
    have "maskShift_skip m shift = (drop_bit (Suc k) m, shift + int (Suc k))"
      using eq k(1) by simp
    moreover have "bit m (Suc k)" using k(2) by (simp add: bit_drop_bit_eq)
    ultimately show ?thesis using low by blast
  qed
qed

lemma maskShift_count_spec:
  "\<exists>k. maskShift_count m b = b + int k \<and> (\<forall>i<k. bit m i) \<and> \<not> bit m k"
proof (induction m b rule: maskShift_count.induct)
  case (1 m bits)
  show ?case
  proof (cases "bit m 0")
    case False
    then have "maskShift_count m bits = bits"
      by (subst maskShift_count.simps) (simp add: and1_eq1_iff)
    with False show ?thesis by (intro exI [of _ 0]) simp
  next
    case True
    then have cond: "m AND 1 = 1" by (simp add: and1_eq1_iff)
    from "1.IH" [OF cond] obtain k where
      k: "maskShift_count (drop_bit 1 m) (bits + 1) = bits + 1 + int k"
         "\<forall>i<k. bit (drop_bit 1 m) i" "\<not> bit (drop_bit 1 m) k"
      by blast
    have eq: "maskShift_count m bits = maskShift_count (drop_bit 1 m) (bits + 1)"
      using cond by (subst maskShift_count.simps) simp
    have run: "bit m i" if "i < Suc k" for i
    proof (cases i)
      case 0 then show ?thesis using True by simp
    next
      case (Suc j)
      with that have "j < k" by simp
      with k(2) have "bit (drop_bit 1 m) j" by blast
      then show ?thesis using Suc by (simp add: bit_drop_bit_eq)
    qed
    have "maskShift_count m bits = bits + int (Suc k)" using eq k(1) by simp
    moreover have "\<not> bit m (Suc k)" using k(3) by (simp add: bit_drop_bit_eq)
    ultimately show ?thesis using run by blast
  qed
qed

text \<open>For any nonzero mask, \<open>maskShift\<close> finds the lowest set bit and the length of the
  run of set bits that starts there.\<close>

lemma maskShift_lowest_run:
  assumes "m \<noteq> 0"
  shows "\<exists>s b. maskShift m = (int s, int b) \<and> bit m s \<and> (\<forall>i < s. \<not> bit m i)
           \<and> (\<forall>i<b. bit m (s + i)) \<and> \<not> bit m (s + b)"
proof -
  from maskShift_skip_spec [OF assms, of 0] obtain s where
    s: "maskShift_skip m 0 = (drop_bit s m, int s)" "bit m s" "\<forall>i < s. \<not> bit m i"
    by auto
  from maskShift_count_spec [of "drop_bit s m" 0] obtain b where
    b: "maskShift_count (drop_bit s m) 0 = int b" "\<forall>i<b. bit (drop_bit s m) i"
       "\<not> bit (drop_bit s m) b"
    by auto
  have "maskShift m = (int s, int b)"
    using assms s(1) b(1) by (simp add: maskShift_def)
  moreover have "\<forall>i<b. bit m (s + i)" using b(2) by (simp add: bit_drop_bit_eq)
  moreover have "\<not> bit m (s + b)" using b(3) by (simp add: bit_drop_bit_eq)
  ultimately show ?thesis using s(2,3) by blast
qed

lemma run_mask_bit:
  "bit (push_bit s (mask b) :: uint32) i \<longleftrightarrow> s \<le> i \<and> i < s + b \<and> i < 32"
  by (auto simp add: bit_push_bit_iff bit_mask_iff)

lemma maskShift_of_run:
  assumes "0 < b" "s + b \<le> 32"
  shows "maskShift (push_bit s (mask b)) = (int s, int b)"
proof -
  let ?m = "push_bit s (mask b) :: uint32"
  have bs: "bit ?m s" using assms by (simp add: run_mask_bit)
  then have nz: "?m \<noteq> 0" by auto
  from maskShift_lowest_run [OF nz] obtain s' b' where
    r: "maskShift ?m = (int s', int b')" "bit ?m s'" "\<forall>i < s'. \<not> bit ?m i"
       "\<forall>i<b'. bit ?m (s' + i)" "\<not> bit ?m (s' + b')"
    by blast
  have "s' = s"
  proof (rule antisym)
    show "s' \<le> s" using r(3) bs by (meson not_le_imp_less)
    show "s \<le> s'" using r(2) by (simp add: run_mask_bit)
  qed
  have "b' = b"
  proof (rule antisym)
    show "b' \<le> b"
    proof (rule ccontr)
      assume "\<not> b' \<le> b"
      then have "b < b'" by simp
      with r(4) have "bit ?m (s' + b)" by blast
      then show False using \<open>s' = s\<close> by (simp add: run_mask_bit)
    qed
    show "b \<le> b'"
    proof (rule ccontr)
      assume "\<not> b \<le> b'"
      then have "b' < b" by simp
      then have "bit ?m (s + b')" using assms by (simp add: run_mask_bit)
      with r(5) \<open>s' = s\<close> show False by simp
    qed
  qed
  with r(1) \<open>s' = s\<close> show ?thesis by simp
qed

text \<open>
  Claim C5. \<open>maskShift\<close> is a function of the mask alone. The zero mask gives
  \<open>(0, 0)\<close>. For a nonzero mask the shift is the index of the lowest set bit and the
  width is the number of set bits in the run starting at that index; in particular a
  mask whose set bits are exactly the run of \<open>w\<close> bits from index \<open>sh\<close> yields
  \<open>(sh, w)\<close>.
\<close>

theorem maskShift_shift_width:
  "maskShift 0 = (0, 0) \<and>
   (m \<noteq> 0 \<longrightarrow>
      (\<exists>s b. maskShift m = (int s, int b) \<and> bit m s \<and> (\<forall>i < s. \<not> bit m i)
             \<and> (\<forall>i<b. bit m (s + i)) \<and> \<not> bit m (s + b))) \<and>
   (0 < w \<and> sh + w \<le> 32 \<longrightarrow> maskShift (push_bit sh (mask w)) = (int sh, int w))"
  using maskShift_lowest_run [of m] maskShift_of_run [of w sh]
  by (simp add: maskShift_def)

theorem maskShift_shift_width_witness:
  "(0xF800 :: uint32) \<noteq> 0 \<and> (0 :: nat) < 5 \<and> (11 :: nat) + 5 \<le> 32 \<and>
   maskShift 0 = (0, 0) \<and>
   maskShift (push_bit 11 (mask 5)) = (11, 5) \<and>
   (\<exists>s b. maskShift 0xF800 = (int s, int b) \<and> bit (0xF800 :: uint32) s)"
proof -
  have "(\<exists>s b. maskShift 0xF800 = (int s, int b) \<and> bit (0xF800 :: uint32) s
             \<and> (\<forall>i < s. \<not> bit (0xF800 :: uint32) i)
             \<and> (\<forall>i<b. bit (0xF800 :: uint32) (s + i)) \<and> \<not> bit (0xF800 :: uint32) (s + b))"
    using maskShift_shift_width [of "0xF800" 5 11] by simp
  then have "\<exists>s b. maskShift 0xF800 = (int s, int b) \<and> bit (0xF800 :: uint32) s"
    by blast
  moreover have "maskShift (push_bit 11 (mask 5)) = (11, 5)"
    using maskShift_shift_width [of "0xF800" 5 11] by simp
  moreover have "maskShift 0 = (0, 0)"
    using maskShift_shift_width [of "0xF800" 5 11] by simp
  ultimately show ?thesis by simp
qed

subsection \<open>Reading\<close>


lemma ReadFull_Inl:
  assumes "ReadFull r n = (Inl e, r')"
  shows "(e = EOF \<or> e = ErrUnexpectedEOF) \<and> length (remaining r) < n
         \<and> content r' = content r \<and> seeker r' = seeker r"
  using assms by (auto simp add: ReadFull_def split: if_splits)

lemma ReadFull_enough:
  assumes "n \<le> length (remaining r)"
  shows "ReadFull r n = (Inr (take n (remaining r)), r\<lparr>pos := pos r + n\<rparr>)"
  using assms by (simp add: ReadFull_def)

lemma ReadFull_short:
  assumes "length (remaining r) < n"
  shows "\<exists>e r'. ReadFull r n = (Inl e, r') \<and> (e = EOF \<or> e = ErrUnexpectedEOF)"
  using assms by (simp add: ReadFull_def)

subsection \<open>The two loops of a decoder\<close>

text \<open>
  The four decoders run the same two loops: for each scanline read a row, then for each
  column compute a pixel from the row and store it at \<open>(x, targetY)\<close>. The loops are
  stated once here, for any pixel function, and each decoder's loops are shown to be an
  instance; the facts about the loops are then proved once.
\<close>

function scan_cols ::
  "(int \<Rightarrow> 'p outcome) \<Rightarrow> 'p pixbuf \<Rightarrow> int \<Rightarrow> int \<Rightarrow> int \<Rightarrow> 'p pixbuf outcome" where
  "scan_cols px img width targetY x =
     (if x < width then
        (case px x of
           Panic \<Rightarrow> Panic
         | Return c \<Rightarrow> scan_cols px (SetPix img x targetY c) width targetY (x + 1))
      else Return img)"
  by pat_completeness auto
termination
  by (relation "measure (\<lambda>(px, img, width, targetY, x). nat (width - x))") auto

declare scan_cols.simps [simp del]

lemma scan_cols_Return:
  assumes "\<And>x'. x \<le> x' \<Longrightarrow> x' < width \<Longrightarrow> px x' = Return (f x')"
  shows "\<exists>img'. scan_cols px img width ty x = Return img' \<and> Bounds img' = Bounds img \<and>
           (\<forall>X Y. Pix img' (X, Y) =
              (if Y = ty \<and> x \<le> X \<and> X < width \<and> In_rect X Y (Bounds img) then f X
               else Pix img (X, Y)))"
  using assms
proof (induction px img width ty x rule: scan_cols.induct)
  case (1 px img width targetY x)
  show ?case
  proof (cases "x < width")
    case False
    then show ?thesis by (subst scan_cols.simps) auto
  next
    case True
    have px: "px x = Return (f x)" using "1.prems" True by simp
    have "\<exists>img'. scan_cols px (SetPix img x targetY (f x)) width targetY (x + 1) = Return img'
            \<and> Bounds img' = Bounds (SetPix img x targetY (f x)) \<and>
           (\<forall>X Y. Pix img' (X, Y) =
              (if Y = targetY \<and> x + 1 \<le> X \<and> X < width
                    \<and> In_rect X Y (Bounds (SetPix img x targetY (f x))) then f X
               else Pix (SetPix img x targetY (f x)) (X, Y)))"
      using "1.prems" by (intro "1.IH" [OF True px]) simp
    then obtain img' where
      r: "scan_cols px (SetPix img x targetY (f x)) width targetY (x + 1) = Return img'"
         "Bounds img' = Bounds (SetPix img x targetY (f x))"
         "\<And>X Y. Pix img' (X, Y) =
              (if Y = targetY \<and> x + 1 \<le> X \<and> X < width
                    \<and> In_rect X Y (Bounds (SetPix img x targetY (f x))) then f X
               else Pix (SetPix img x targetY (f x)) (X, Y))"
      by blast
    have b: "Bounds (SetPix img x targetY (f x)) = Bounds img" by (simp add: SetPix_def)
    have eq: "scan_cols px img width targetY x = Return img'"
      using True px r(1) by (subst scan_cols.simps) simp
    have "Pix img' (X, Y) =
              (if Y = targetY \<and> x \<le> X \<and> X < width \<and> In_rect X Y (Bounds img) then f X
               else Pix img (X, Y))" for X Y
      unfolding r(3) b using True by (auto simp add: SetPix_def)
    with eq r(2) b show ?thesis by simp
  qed
qed

function scan_rows ::
  "(byte list \<Rightarrow> int \<Rightarrow> 'p outcome) \<Rightarrow> (int \<Rightarrow> int) \<Rightarrow> reader \<Rightarrow> 'p pixbuf \<Rightarrow> int \<Rightarrow> int \<Rightarrow> nat
     \<Rightarrow> int \<Rightarrow> (('p pixbuf \<times> error option) \<times> reader) outcome" where
  "scan_rows px tgt r img width height n y =
     (if y < height then
        (case ReadFull r n of
           (Inl e, r') \<Rightarrow> Return ((img, Some e), r')
         | (Inr row, r') \<Rightarrow>
             (case scan_cols (px row) img width (tgt y) 0 of
                Panic \<Rightarrow> Panic
              | Return img' \<Rightarrow> scan_rows px tgt r' img' width height n (y + 1)))
      else Return ((img, None), r))"
  by pat_completeness auto
termination
  by (relation "measure (\<lambda>(px, tgt, r, img, width, height, n, y). nat (height - y))") auto

declare scan_rows.simps [simp del]

text \<open>The \<open>k\<close>-th scanline of \<open>n\<close> bytes counted from the cursor of \<open>r\<close>.\<close>

definition scanline :: "reader \<Rightarrow> nat \<Rightarrow> nat \<Rightarrow> byte list" where
  "scanline r n k = take n (drop (pos r + k * n) (content r))"

text \<open>With enough bytes left and a pixel function that does not panic, the loops return
  without error, consume \<open>height - y\<close> rows, write row \<open>y'\<close> of the stream to row
  \<open>tgt y'\<close> of the image and leave every other point as it was.\<close>

lemma scan_rows_Return:
  assumes total: "\<And>row x. length row = n \<Longrightarrow> 0 \<le> x \<Longrightarrow> x < width \<Longrightarrow> px row x = Return (f row x)"
    and inj: "inj tgt"
    and data: "nat (height - y) * n \<le> length (remaining r)"
  shows "\<exists>img' r'. scan_rows px tgt r img width height n y = Return ((img', None), r')
           \<and> pos r' = pos r + nat (height - y) * n \<and> content r' = content r
           \<and> seeker r' = seeker r \<and> Bounds img' = Bounds img
           \<and> (\<forall>X y'. 0 \<le> X \<and> X < width \<and> y \<le> y' \<and> y' < height \<and> In_rect X (tgt y') (Bounds img)
                  \<longrightarrow> Pix img' (X, tgt y') = f (scanline r n (nat (y' - y))) X)
           \<and> (\<forall>X Y. \<not> (0 \<le> X \<and> X < width \<and> In_rect X Y (Bounds img)
                          \<and> (\<exists>y'. y \<le> y' \<and> y' < height \<and> tgt y' = Y))
                  \<longrightarrow> Pix img' (X, Y) = Pix img (X, Y))"
  using assms
proof (induction px tgt r img width height n y rule: scan_rows.induct)
  case (1 px tgt r img width height n y)
  note total = "1.prems"(1) and inj = "1.prems"(2) and data = "1.prems"(3)
  show ?case
  proof (cases "y < height")
    case False
    then show ?thesis by (subst scan_rows.simps) auto
  next
    case True
    then have pos: "nat (height - y) = Suc (nat (height - (y + 1)))" by simp
    have enough: "n \<le> length (remaining r)"
      using data unfolding pos by simp
    define row where "row = take n (remaining r)"
    define r1 where "r1 = r\<lparr>pos := pos r + n\<rparr>"
    have rf: "ReadFull r n = (Inr row, r1)"
      unfolding row_def r1_def by (rule ReadFull_enough [OF enough])
    have lrow: "length row = n" using enough by (simp add: row_def)
    have row0: "row = scanline r n 0"
      by (simp add: row_def scanline_def remaining_def)
    from scan_cols_Return [of 0 width "px row" "f row" img "tgt y"] total [OF lrow]
    obtain img1 where
      c: "scan_cols (px row) img width (tgt y) 0 = Return img1" "Bounds img1 = Bounds img"
         "\<And>X Y. Pix img1 (X, Y) =
              (if Y = tgt y \<and> 0 \<le> X \<and> X < width \<and> In_rect X Y (Bounds img) then f row X
               else Pix img (X, Y))"
      by blast
    have rem1: "length (remaining r1) = length (remaining r) - n"
      by (simp add: r1_def remaining_def)
    have data1: "nat (height - (y + 1)) * n \<le> length (remaining r1)"
      using data unfolding pos rem1 by simp
    from "1.IH" [OF True rf [symmetric] refl c(1) total inj data1]
    obtain img' r' where
      ih: "scan_rows px tgt r1 img1 width height n (y + 1) = Return ((img', None), r')"
          "pos r' = pos r1 + nat (height - (y + 1)) * n" "content r' = content r1"
          "seeker r' = seeker r1" "Bounds img' = Bounds img1"
          "\<And>X y'. 0 \<le> X \<and> X < width \<and> y + 1 \<le> y' \<and> y' < height \<and> In_rect X (tgt y') (Bounds img1)
                  \<Longrightarrow> Pix img' (X, tgt y') = f (scanline r1 n (nat (y' - (y + 1)))) X"
          "\<And>X Y. \<not> (0 \<le> X \<and> X < width \<and> In_rect X Y (Bounds img1)
                          \<and> (\<exists>y'. y + 1 \<le> y' \<and> y' < height \<and> tgt y' = Y))
                  \<Longrightarrow> Pix img' (X, Y) = Pix img1 (X, Y)"
      by blast
    have eq: "scan_rows px tgt r img width height n y = Return ((img', None), r')"
      using True rf c(1) ih(1) by (subst scan_rows.simps) simp
    have p: "pos r' = pos r + nat (height - y) * n"
      using ih(2) unfolding pos by (simp add: r1_def)
    have sl: "scanline r1 n k = scanline r n (Suc k)" for k
    proof -
      have e: "pos r + n + k * n = pos r + Suc k * n" by simp
      have "scanline r1 n k = take n (drop (pos r + n + k * n) (content r))"
        by (simp add: scanline_def r1_def)
      also have "\<dots> = take n (drop (pos r + Suc k * n) (content r))" by (simp only: e)
      also have "\<dots> = scanline r n (Suc k)" by (simp only: scanline_def)
      finally show ?thesis .
    qed
    have hit: "Pix img' (X, tgt y') = f (scanline r n (nat (y' - y))) X"
      if h: "0 \<le> X \<and> X < width \<and> y \<le> y' \<and> y' < height \<and> In_rect X (tgt y') (Bounds img)"
      for X y'
    proof (cases "y' = y")
      case False
      with h have h1: "0 \<le> X \<and> X < width \<and> y + 1 \<le> y' \<and> y' < height \<and> In_rect X (tgt y') (Bounds img1)"
        by (simp add: c(2))
      from h1 have "y + 1 \<le> y'" by blast
      then have "nat (y' - y) = Suc (nat (y' - (y + 1)))" by linarith
      with ih(6) [OF h1] show ?thesis by (simp add: sl)
    next
      case True
      have "\<not> (\<exists>y''. y + 1 \<le> y'' \<and> y'' < height \<and> tgt y'' = tgt y)"
      proof
        assume "\<exists>y''. y + 1 \<le> y'' \<and> y'' < height \<and> tgt y'' = tgt y"
        then obtain y'' where "y + 1 \<le> y''" "tgt y'' = tgt y" by blast
        moreover from this(2) inj have "y'' = y" by (simp add: inj_def)
        ultimately show False by simp
      qed
      then have "Pix img' (X, tgt y) = Pix img1 (X, tgt y)" by (intro ih(7)) blast
      also have "\<dots> = f row X" using h True by (simp add: c(3))
      finally show ?thesis using True by (simp add: row0)
    qed
    have frame: "Pix img' (X, Y) = Pix img (X, Y)"
      if h: "\<not> (0 \<le> X \<and> X < width \<and> In_rect X Y (Bounds img)
                          \<and> (\<exists>y'. y \<le> y' \<and> y' < height \<and> tgt y' = Y))"
      for X Y
    proof -
      have up: "\<exists>y'. y \<le> y' \<and> y' < height \<and> tgt y' = Y"
        if "\<exists>y'. y + 1 \<le> y' \<and> y' < height \<and> tgt y' = Y"
      proof -
        from that obtain y' where "y + 1 \<le> y'" "y' < height" "tgt y' = Y" by blast
        then have "y \<le> y' \<and> y' < height \<and> tgt y' = Y" by simp
        then show ?thesis by blast
      qed
      have "\<not> (0 \<le> X \<and> X < width \<and> In_rect X Y (Bounds img1)
                          \<and> (\<exists>y'. y + 1 \<le> y' \<and> y' < height \<and> tgt y' = Y))"
        using h up unfolding c(2) by blast
      then have "Pix img' (X, Y) = Pix img1 (X, Y)" by (rule ih(7))
      also have "\<dots> = Pix img (X, Y)"
      proof -
        have neg: "\<not> (Y = tgt y \<and> 0 \<le> X \<and> X < width \<and> In_rect X Y (Bounds img))"
          using h \<open>y < height\<close> by (metis order_refl)
        show ?thesis by (subst c(3)) (rule if_not_P, rule neg)
      qed
      finally show ?thesis .
    qed
    show ?thesis
      using eq p ih(3,4,5) c(2) hit frame by (simp add: r1_def)
  qed
qed

subsection \<open>The indexed decoder\<close>

lemma sdiv_nonneg: "0 \<le> a \<Longrightarrow> 0 < b \<Longrightarrow> (a :: int) sdiv b = a div b"
  by (simp add: signed_divide_int_def sgn_if)

lemma smod_nonneg: "0 \<le> a \<Longrightarrow> 0 < b \<Longrightarrow> (a :: int) smod b = a mod b"
  by (simp add: signed_modulo_int_def sgn_if)

lemma readIndexedData_cols_scan:
  "readIndexedData_cols img info row ty x
     = scan_cols (indexedPixel info row) img (widthOf info) ty x"
proof (induction img info row ty x rule: readIndexedData_cols.induct)
  case (1 img info row targetY x)
  show ?case
    by (subst readIndexedData_cols.simps, subst scan_cols.simps)
      (auto split: outcome.splits simp add: "1.IH")
qed

lemma readIndexedData_rows_scan:
  "readIndexedData_rows r img info n y
     = scan_rows (indexedPixel info) (targetRow info (heightOf info)) r img
         (widthOf info) (heightOf info) n y"
proof (induction r img info n y rule: readIndexedData_rows.induct)
  case (1 r img info bytesPerRow y)
  show ?case
    by (subst readIndexedData_rows.simps, subst scan_rows.simps)
      (auto split: outcome.splits sum.splits prod.splits
         simp add: "1.IH" readIndexedData_cols_scan)
qed

text \<open>The field of a row that holds the index of column \<open>x\<close>, as \<open>indexedPixel\<close>
  computes it for the three indexed depths.\<close>

definition indexField :: "int \<Rightarrow> byte list \<Rightarrow> int \<Rightarrow> byte" where
  "indexField bitsPerPixel row x =
     (if bitsPerPixel = 1 then drop_bit (nat (7 - x mod 8)) (row ! nat (x div 8)) AND 1
      else if bitsPerPixel = 4 then drop_bit (nat (x mod 2 * 4)) (row ! nat (x div 2)) AND 0x0F
      else row ! nat x)"

lemma uint_BitCount_cases:
  assumes "BitCount info = 1 \<or> BitCount info = 4 \<or> BitCount info = 8"
  shows "uint (BitCount info) = 1 \<or> uint (BitCount info) = 4 \<or> uint (BitCount info) = 8"
  using assms by auto

lemma row_long_enough:
  assumes "0 \<le> x" "x < width" "bpp = 1 \<or> bpp = 4 \<or> bpp = (8 :: int)"
  shows "x div (8 div bpp) < bytesPerRowIndexed width bpp"
proof -
  have nn: "0 \<le> width * bpp + 31" using assms by auto
  have "bytesPerRowIndexed width bpp = (width * bpp + 31) div 32 * 4"
    using nn by (simp add: bytesPerRowIndexed_def sdiv_nonneg)
  then show ?thesis using assms by auto
qed

lemma byte_and_255: "(b :: byte) AND 255 = b"
proof -
  have "(255 :: byte) = - 1" by simp
  then show ?thesis by (simp only: and.right_neutral)
qed

lemma indexedPixel_Return:
  assumes bc: "BitCount info = 1 \<or> BitCount info = 4 \<or> BitCount info = 8"
    and x: "0 \<le> x" "x < width"
    and len: "int (length row) = bytesPerRowIndexed width (uint (BitCount info))"
  shows "indexedPixel info row x = Return (indexField (uint (BitCount info)) row x)"
proof -
  have inr: "x div (8 div uint (BitCount info)) < int (length row)"
    unfolding len using x uint_BitCount_cases [OF bc] by (intro row_long_enough) auto
  from bc show ?thesis
  proof (elim disjE)
    assume b: "BitCount info = 1"
    then have "x div 8 < int (length row)" using inr by simp
    then show ?thesis using x b
      by (simp add: indexedPixel_def indexField_def Let_def sdiv_nonneg smod_nonneg)
  next
    assume b: "BitCount info = 4"
    then have "x div 2 < int (length row)" using inr by simp
    then show ?thesis using x b
      by (simp add: indexedPixel_def indexField_def Let_def sdiv_nonneg smod_nonneg)
  next
    assume b: "BitCount info = 8"
    then have "x < int (length row)" using inr by simp
    then show ?thesis using x b
      by (simp add: indexedPixel_def indexField_def Let_def sdiv_nonneg smod_nonneg
          byte_and_255)
  qed
qed

lemma widthOf_bounds: "- (2 ^ 31) \<le> widthOf info \<and> widthOf info < 2 ^ 31"
  using sint_ge [of "Width info"] sint_lt [of "Width info"] by (simp add: widthOf_def)

lemma heightOf_bounds: "0 \<le> heightOf info \<and> heightOf info \<le> 2 ^ 31"
  using sint_ge [of "Height info"] sint_lt [of "Height info"]
  by (simp add: heightOf_def Let_def)

lemma NewPix_small:
  assumes "0 \<le> width" "0 \<le> height" "bpp * width * height \<le> 2 ^ 48"
  shows "NewPix bpp (Rect 0 0 width height) z
           = Return \<lparr>Bounds = Rect 0 0 width height, Pix = (\<lambda>_. z)\<rparr>"
proof -
  have "bpp * width * height < 2 ^ 63" using assms(3) by simp
  then show ?thesis
    using assms by (simp add: NewPix_def Let_def maxAlloc_def Rect_def Dx_def Dy_def)
qed

text \<open>
  Beyond \<open>maxAlloc\<close> the constructor panics although the length still fits \<open>int\<close>: a
  1-bit header of width 131073 and height 2147483647 asks for more than \<open>2^48\<close> index
  bytes.
\<close>

lemma NewPix_beyond_maxAlloc:
  "NewPix 1 (Rect 0 0 131073 2147483647) z = Panic"
  by (simp add: NewPix_def Let_def maxAlloc_def Rect_def Dx_def Dy_def)

lemma In_rect_Rect:
  assumes "0 \<le> width" "0 \<le> height"
  shows "In_rect x y (Rect 0 0 width height) \<longleftrightarrow> 0 \<le> x \<and> x < width \<and> 0 \<le> y \<and> y < height"
  using assms by (auto simp add: In_rect_def Rect_def)

lemma inj_targetRow: "inj (targetRow info height)"
  by (auto simp add: inj_def targetRow_def)

lemma targetRow_range:
  assumes "0 \<le> y" "y < height"
  shows "0 \<le> targetRow info height y \<and> targetRow info height y < height"
  using assms by (simp add: targetRow_def)

lemma bytesPerRowIndexed_nonneg:
  assumes "0 \<le> width" "0 \<le> bpp"
  shows "0 \<le> bytesPerRowIndexed width bpp"
proof -
  have "0 \<le> width * bpp + 31" using assms by simp
  then have "bytesPerRowIndexed width bpp = (width * bpp + 31) div 32 * 4"
    by (simp add: bytesPerRowIndexed_def sdiv_nonneg)
  moreover have "0 \<le> (width * bpp + 31) div 32" using \<open>0 \<le> width * bpp + 31\<close> by simp
  ultimately show ?thesis by simp
qed

lemma scanline_length:
  assumes "k < h" "h * n \<le> length (remaining r)"
  shows "length (scanline r n k) = n"
proof -
  have "Suc k * n \<le> h * n" using assms(1) by (intro mult_le_mono1) simp
  then have "k * n + n \<le> length (remaining r)" using assms(2) by simp
  then show ?thesis by (simp add: scanline_def remaining_def)
qed

lemma readIndexedData_complete:
  assumes bc: "BitCount info = 1 \<or> BitCount info = 4 \<or> BitCount info = 8"
    and w: "0 < widthOf info"
    and n: "n = nat (bytesPerRowIndexed (widthOf info) (uint (BitCount info)))"
    and data: "nat (heightOf info) * n \<le> length (remaining r)"
  shows "\<exists>img' r'. readIndexedData r img info = Return ((img', None), r')
           \<and> pos r' = pos r + nat (heightOf info) * n \<and> content r' = content r
           \<and> seeker r' = seeker r \<and> Bounds img' = Bounds img
           \<and> (\<forall>X y'. 0 \<le> X \<and> X < widthOf info \<and> 0 \<le> y' \<and> y' < heightOf info
                    \<and> In_rect X (targetRow info (heightOf info) y') (Bounds img)
                  \<longrightarrow> Pix img' (X, targetRow info (heightOf info) y')
                        = indexField (uint (BitCount info)) (scanline r n (nat y')) X)
           \<and> (\<forall>X Y. \<not> (0 \<le> X \<and> X < widthOf info \<and> In_rect X Y (Bounds img)
                          \<and> (\<exists>y'. 0 \<le> y' \<and> y' < heightOf info
                                \<and> targetRow info (heightOf info) y' = Y))
                  \<longrightarrow> Pix img' (X, Y) = Pix img (X, Y))"
proof -
  let ?bpp = "uint (BitCount info)"
  have bpp: "?bpp = 1 \<or> ?bpp = 4 \<or> ?bpp = 8" by (rule uint_BitCount_cases [OF bc])
  have nn: "0 \<le> bytesPerRowIndexed (widthOf info) ?bpp"
    using w bpp by (intro bytesPerRowIndexed_nonneg) auto
  have rid: "readIndexedData r img info
      = scan_rows (indexedPixel info) (targetRow info (heightOf info)) r img
         (widthOf info) (heightOf info) n 0"
    using bpp nn by (auto simp add: readIndexedData_def Let_def n readIndexedData_rows_scan)
  have total: "indexedPixel info row x = Return (indexField ?bpp row x)"
    if "length row = n" "0 \<le> x" "x < widthOf info" for row x
    using that nn by (intro indexedPixel_Return [OF bc, of x "widthOf info"]) (simp_all add: n)
  have data0: "nat (heightOf info - 0) * n \<le> length (remaining r)" using data by simp
  from scan_rows_Return [of n "widthOf info" "indexedPixel info" "indexField ?bpp"
      "targetRow info (heightOf info)" "heightOf info" 0 r img, OF total inj_targetRow data0]
  show ?thesis unfolding rid by simp
qed

text \<open>On complete data the indexed branch of \<open>decodePixelData\<close> returns the paletted
  image, and each stored index is the field extracted from its scanline.\<close>

lemma indexed_complete:
  assumes bc: "BitCount info = 1 \<or> BitCount info = 4 \<or> BitCount info = 8"
    and w: "0 < widthOf info"
    and fits: "widthOf info * heightOf info \<le> 2 ^ 48"
    and n: "n = nat (bytesPerRowIndexed (widthOf info) (uint (BitCount info)))"
    and data: "nat (heightOf info) * n \<le> length (remaining r)"
  shows "\<exists>img r'. decodePixelData r info palette
              = Return ((Some (image_Paletted img palette), None), r')
           \<and> (\<forall>x y. 0 \<le> x \<and> x < widthOf info \<and> 0 \<le> y \<and> y < heightOf info
                 \<longrightarrow> indexedPixel info (scanline r n (nat y)) x
                       = Return (PixAt img 0 x (targetRow info (heightOf info) y)))"
proof -
  let ?w = "widthOf info" and ?h = "heightOf info"
  let ?img0 = "\<lparr>Bounds = Rect 0 0 ?w ?h, Pix = (\<lambda>_. 0 :: byte)\<rparr>"
  have new: "NewPix 1 (Rect 0 0 ?w ?h) (0 :: byte) = Return ?img0"
    using w heightOf_bounds [of info] fits by (intro NewPix_small) simp_all
  from readIndexedData_complete [OF bc w n data, of ?img0]
  obtain img' r' where
    r: "readIndexedData r ?img0 info = Return ((img', None), r')" "Bounds img' = Bounds ?img0"
       "\<And>X y'. 0 \<le> X \<and> X < ?w \<and> 0 \<le> y' \<and> y' < ?h
                    \<and> In_rect X (targetRow info ?h y') (Bounds ?img0)
                  \<Longrightarrow> Pix img' (X, targetRow info ?h y')
                        = indexField (uint (BitCount info)) (scanline r n (nat y')) X"
    by blast
  have dec: "decodePixelData r info palette = Return ((Some (image_Paletted img' palette), None), r')"
    using bc new r(1) by (simp add: decodePixelData_def Let_def)
  have px: "indexedPixel info (scanline r n (nat y)) x
              = Return (PixAt img' 0 x (targetRow info ?h y))"
    if h: "0 \<le> x \<and> x < ?w \<and> 0 \<le> y \<and> y < ?h" for x y
  proof -
    have hn: "0 \<le> ?h" using heightOf_bounds [of info] by simp
    have inr: "In_rect x (targetRow info ?h y) (Rect 0 0 ?w ?h)"
      using h w hn targetRow_range [of y ?h info] by (simp add: In_rect_Rect)
    have "nat y < nat ?h" using h by simp
    then have len: "length (scanline r n (nat y)) = n" using data by (rule scanline_length)
    have nn: "0 \<le> bytesPerRowIndexed ?w (uint (BitCount info))"
      using w uint_BitCount_cases [OF bc] by (intro bytesPerRowIndexed_nonneg) auto
    have "indexedPixel info (scanline r n (nat y)) x
            = Return (indexField (uint (BitCount info)) (scanline r n (nat y)) x)"
      using h len nn by (intro indexedPixel_Return [OF bc, of x ?w]) (simp_all add: n)
    moreover have "Pix img' (x, targetRow info ?h y)
        = indexField (uint (BitCount info)) (scanline r n (nat y)) x"
      using h inr by (intro r(3)) simp
    moreover have "PixAt img' 0 x (targetRow info ?h y) = Pix img' (x, targetRow info ?h y)"
      using inr by (simp add: PixAt_def r(2))
    ultimately show ?thesis by simp
  qed
  from dec px show ?thesis by blast
qed

text \<open>A result with the palette of its paletted image replaced.\<close>

definition with_palette ::
  "color_RGBA list \<Rightarrow> ((image option \<times> error option) \<times> reader) outcome
     \<Rightarrow> ((image option \<times> error option) \<times> reader) outcome" where
  "with_palette p res =
     (case res of
        Panic \<Rightarrow> Panic
      | Return ((None, err), r) \<Rightarrow> Return ((None, err), r)
      | Return ((Some (image_Paletted b q), err), r) \<Rightarrow> Return ((Some (image_Paletted b p), err), r)
      | Return ((Some (image_RGBA64 b), err), r) \<Rightarrow> Return ((Some (image_RGBA64 b), err), r)
      | Return ((Some (image_RGBA b), err), r) \<Rightarrow> Return ((Some (image_RGBA b), err), r))"

text \<open>
  Claim C10. Indexed decoding never looks into the palette. For a 1, 4 or 8 bit header
  the result of \<open>decodePixelData\<close> with any palette is its result with the empty
  palette, the palette of the returned image apart: outcome, error, indices and stream
  do not depend on it. When the width is positive, the index buffer of \<open>width * height\<close>
  bytes can be allocated (at most \<open>2^48\<close> bytes) and the pixel data is complete, the
  call returns a paletted image and no error, and the index stored at column \<open>x\<close> of the
  target row of scanline \<open>y\<close> is exactly the field extracted from that scanline, whether
  or not it is below the palette length.
\<close>

theorem indexed_never_reads_palette:
  assumes bc: "BitCount info = 1 \<or> BitCount info = 4 \<or> BitCount info = 8"
  shows "decodePixelData r info palette = with_palette palette (decodePixelData r info [])
       \<and> (0 < widthOf info
            \<and> widthOf info * heightOf info \<le> 2 ^ 48
            \<and> nat (heightOf info) * nat (bytesPerRowIndexed (widthOf info) (uint (BitCount info)))
                \<le> length (remaining r) \<longrightarrow>
          (\<exists>img r'. decodePixelData r info palette
                        = Return ((Some (image_Paletted img palette), None), r')
             \<and> (\<forall>x y. 0 \<le> x \<and> x < widthOf info \<and> 0 \<le> y \<and> y < heightOf info
                   \<longrightarrow> indexedPixel info
                          (scanline r (nat (bytesPerRowIndexed (widthOf info)
                             (uint (BitCount info)))) (nat y)) x
                         = Return (PixAt img 0 x (targetRow info (heightOf info) y)))))"
proof (intro conjI impI)
  show "decodePixelData r info palette = with_palette palette (decodePixelData r info [])"
    using bc
    by (auto simp add: decodePixelData_def Let_def with_palette_def
        split: outcome.splits prod.splits)
next
  assume a: "0 < widthOf info
            \<and> widthOf info * heightOf info \<le> 2 ^ 48
            \<and> nat (heightOf info) * nat (bytesPerRowIndexed (widthOf info) (uint (BitCount info)))
                \<le> length (remaining r)"
  then have w: "0 < widthOf info"
    and fits: "widthOf info * heightOf info \<le> 2 ^ 48"
    and data: "nat (heightOf info)
                 * nat (bytesPerRowIndexed (widthOf info) (uint (BitCount info)))
               \<le> length (remaining r)"
    by simp_all
  show "\<exists>img r'. decodePixelData r info palette
                        = Return ((Some (image_Paletted img palette), None), r')
             \<and> (\<forall>x y. 0 \<le> x \<and> x < widthOf info \<and> 0 \<le> y \<and> y < heightOf info
                   \<longrightarrow> indexedPixel info
                          (scanline r (nat (bytesPerRowIndexed (widthOf info)
                             (uint (BitCount info)))) (nat y)) x
                         = Return (PixAt img 0 x (targetRow info (heightOf info) y)))"
    by (rule indexed_complete [OF bc w fits refl data])
qed

definition indexed_example_info :: InfoHeader where
  "indexed_example_info = zeroInfoHeader\<lparr>Width := 2, Height := 1, BitCount := 8\<rparr>"

definition indexed_example_reader :: reader where
  "indexed_example_reader = \<lparr>content = [5, 200, 0, 0], pos = 0, seeker = SeekOk\<rparr>"

theorem indexed_never_reads_palette_witness:
  "\<exists>img r'. decodePixelData indexed_example_reader indexed_example_info []
              = Return ((Some (image_Paletted img []), None), r')
           \<and> PixAt img 0 1 0 = 200"
proof -
  let ?i = indexed_example_info and ?r = indexed_example_reader
  have bc: "BitCount ?i = 1 \<or> BitCount ?i = 4 \<or> BitCount ?i = 8"
    by (simp add: indexed_example_info_def)
  have wv: "widthOf ?i = 2"
    by (simp add: indexed_example_info_def widthOf_def zeroInfoHeader_def)
  have n: "nat (bytesPerRowIndexed (widthOf ?i) (uint (BitCount ?i))) = 4"
    by (simp add: indexed_example_info_def widthOf_def zeroInfoHeader_def
        bytesPerRowIndexed_def signed_divide_int_def)
  have h: "heightOf ?i = 1"
    by (simp add: indexed_example_info_def heightOf_def zeroInfoHeader_def)
  have data: "nat (heightOf ?i) * 4 \<le> length (remaining ?r)"
    by (simp add: h indexed_example_reader_def remaining_def)
  have pre: "0 < widthOf ?i
      \<and> widthOf ?i * heightOf ?i \<le> 2 ^ 48
      \<and> nat (heightOf ?i) * nat (bytesPerRowIndexed (widthOf ?i) (uint (BitCount ?i)))
          \<le> length (remaining ?r)"
    unfolding n using data by (simp add: wv h)
  from indexed_never_reads_palette [OF bc, of ?r "[]"] pre
  have "\<exists>img r'. decodePixelData ?r ?i [] = Return ((Some (image_Paletted img []), None), r')
          \<and> (\<forall>x y. 0 \<le> x \<and> x < widthOf ?i \<and> 0 \<le> y \<and> y < heightOf ?i
                \<longrightarrow> indexedPixel ?i
                       (scanline ?r (nat (bytesPerRowIndexed (widthOf ?i) (uint (BitCount ?i))))
                          (nat y)) x
                      = Return (PixAt img 0 x (targetRow ?i (heightOf ?i) y)))"
    by blast
  then obtain img r' where
    d: "decodePixelData ?r ?i [] = Return ((Some (image_Paletted img []), None), r')" and
    p: "\<And>x y. 0 \<le> x \<and> x < widthOf ?i \<and> 0 \<le> y \<and> y < heightOf ?i
          \<Longrightarrow> indexedPixel ?i (scanline ?r 4 (nat y)) x
                = Return (PixAt img 0 x (targetRow ?i (heightOf ?i) y))"
    unfolding n by blast
  have "indexedPixel ?i (scanline ?r 4 (nat 0)) 1 = Return (PixAt img 0 1 (targetRow ?i (heightOf ?i) 0))"
    using h by (intro p) (simp add: wv)
  moreover have "indexedPixel ?i (scanline ?r 4 (nat 0)) 1 = Return 200"
    by (simp add: indexedPixel_def indexed_example_info_def zeroInfoHeader_def
        scanline_def indexed_example_reader_def Let_def signed_divide_int_def
        signed_modulo_int_def)
  moreover have "targetRow ?i (heightOf ?i) 0 = 0"
    by (simp add: h targetRow_def)
  ultimately have "PixAt img 0 1 0 = 200" by simp
  with d show ?thesis by blast
qed

subsection \<open>The direct-colour decoders as instances of the loops\<close>


text \<open>The decoders for 16, 24 and 32 bits return no image with an error.\<close>

definition nil_on_error ::
  "(('p pixbuf \<times> error option) \<times> reader) outcome
     \<Rightarrow> (('p pixbuf option \<times> error option) \<times> reader) outcome" where
  "nil_on_error res =
     (case res of
        Panic \<Rightarrow> Panic
      | Return ((img, None), r) \<Rightarrow> Return ((Some img, None), r)
      | Return ((img, Some e), r) \<Rightarrow> Return ((None, Some e), r))"

lemma read16BitData_cols_scan:
  "read16BitData_cols img width rm gm bm row ty x
     = scan_cols (pixel16 rm gm bm row) img width ty x"
proof (induction img width rm gm bm row ty x rule: read16BitData_cols.induct)
  case (1 img width redMask greenMask blueMask row targetY x)
  show ?case
    by (subst read16BitData_cols.simps, subst scan_cols.simps)
      (auto split: outcome.splits simp add: "1.IH")
qed

lemma read16BitData_rows_scan:
  "read16BitData_rows r img info rm gm bm n y
     = nil_on_error (scan_rows (pixel16 rm gm bm) (targetRow info (heightOf info)) r img
         (widthOf info) (heightOf info) n y)"
proof (induction r img info rm gm bm n y rule: read16BitData_rows.induct)
  case (1 r img info redMask greenMask blueMask bytesPerRow y)
  show ?case
    by (subst read16BitData_rows.simps, subst scan_rows.simps)
      (auto split: outcome.splits sum.splits prod.splits
         simp add: "1.IH" read16BitData_cols_scan nil_on_error_def)
qed

lemma read32BitData_cols_scan:
  "read32BitData_cols img width rm gm bm am row ty x
     = scan_cols (pixel32 rm gm bm am row) img width ty x"
proof (induction img width rm gm bm am row ty x rule: read32BitData_cols.induct)
  case (1 img width redMask greenMask blueMask alphaMask row targetY x)
  show ?case
    by (subst read32BitData_cols.simps, subst scan_cols.simps)
      (auto split: outcome.splits simp add: "1.IH")
qed

lemma read32BitData_rows_scan:
  "read32BitData_rows r img info rm gm bm am n y
     = nil_on_error (scan_rows (pixel32 rm gm bm am) (targetRow info (heightOf info)) r img
         (widthOf info) (heightOf info) n y)"
proof (induction r img info rm gm bm am n y rule: read32BitData_rows.induct)
  case (1 r img info redMask greenMask blueMask alphaMask bytesPerRow y)
  show ?case
    by (subst read32BitData_rows.simps, subst scan_rows.simps)
      (auto split: outcome.splits sum.splits prod.splits
         simp add: "1.IH" read32BitData_cols_scan nil_on_error_def)
qed

lemma read24BitData_cols_scan:
  "read24BitData_cols img info row ty x
     = scan_cols (pixel24 row) img (sint (Width info)) ty x"
proof (induction img info row ty x rule: read24BitData_cols.induct)
  case (1 img info row targetY x)
  show ?case
    by (subst read24BitData_cols.simps, subst scan_cols.simps)
      (auto split: outcome.splits simp add: "1.IH")
qed

lemma read24BitData_rows_scan:
  "read24BitData_rows r img info n y
     = nil_on_error (scan_rows pixel24 (targetRow info (sint (Height info))) r img
         (sint (Width info)) (sint (Height info)) n y)"
proof (induction r img info n y rule: read24BitData_rows.induct)
  case (1 r img info bytesPerRow y)
  show ?case
    by (subst read24BitData_rows.simps, subst scan_rows.simps)
      (auto split: outcome.splits sum.splits prod.splits
         simp add: "1.IH" read24BitData_cols_scan nil_on_error_def)
qed






subsection \<open>Scanline lengths\<close>

lemma and_not3_int: "(k :: int) AND NOT 3 = k div 4 * 4"
proof -
  have *: "Suc (Suc (n - 2)) = n" if "2 \<le> n" for n :: nat using that by simp
  have "k AND NOT (mask 2) = push_bit 2 (drop_bit 2 k)"
    by (rule bit_eqI)
      (auto simp add: bit_and_iff bit_not_iff bit_mask_iff bit_push_bit_iff bit_drop_bit_eq
         * not_less)
  also have "\<dots> = k div 4 * 4" by (simp add: push_bit_eq_mult drop_bit_eq_div)
  finally show ?thesis by (simp add: mask_eq_exp_minus_1)
qed









subsection \<open>The palette\<close>

text \<open>The palette entry made from the \<open>k\<close>-th group of four bytes of a byte sequence:
  blue, green, red, and a fourth byte that is dropped.\<close>

definition paletteEntry :: "byte list \<Rightarrow> nat \<Rightarrow> color_RGBA" where
  "paletteEntry bs k =
     \<lparr>R8 = bs ! (4 * k + 2), G8 = bs ! (4 * k + 1), B8 = bs ! (4 * k), A8 = 255\<rparr>"

lemma parsePalette_loop_complete:
  assumes "0 \<le> i" "i \<le> entries" "length palette = nat entries"
    and "4 * nat (entries - i) \<le> length (remaining r)"
  shows "\<exists>pal r'. parsePalette_loop r i entries palette = (Inr pal, r')
           \<and> pos r' = pos r + 4 * nat (entries - i) \<and> content r' = content r
           \<and> seeker r' = seeker r \<and> length pal = nat entries
           \<and> (\<forall>j < nat i. pal ! j = palette ! j)
           \<and> (\<forall>j. nat i \<le> j \<and> j < nat entries
                  \<longrightarrow> pal ! j = paletteEntry (remaining r) (j - nat i))"
  using assms
proof (induction r i entries palette rule: parsePalette_loop.induct)
  case (1 r i entries palette)
  show ?case
  proof (cases "i < entries")
    case False
    with "1.prems" have "i = entries" by simp
    then show ?thesis using "1.prems"(3) by (subst parsePalette_loop.simps) auto
  next
    case True
    then have cnt: "nat (entries - i) = Suc (nat (entries - (i + 1)))" by simp
    have enough: "4 \<le> length (remaining r)" using "1.prems"(4) unfolding cnt by simp
    define bgr where "bgr = take 4 (remaining r)"
    define r1 where "r1 = r\<lparr>pos := pos r + 4\<rparr>"
    define c where "c = \<lparr>R8 = bgr ! 2, G8 = bgr ! 1, B8 = bgr ! 0, A8 = 255\<rparr>"
    have rf: "ReadFull r 4 = (Inr bgr, r1)"
      unfolding bgr_def r1_def by (rule ReadFull_enough [OF enough])
    have c0: "c = paletteEntry (remaining r) 0"
      by (simp add: c_def bgr_def paletteEntry_def numeral_2_eq_2)
    have rem1: "remaining r1 = drop 4 (remaining r)"
      by (simp add: r1_def remaining_def add.commute)
    have data1: "4 * nat (entries - (i + 1)) \<le> length (remaining r1)"
      using "1.prems"(4) unfolding cnt rem1 by simp
    have len1: "length (palette[nat i := c]) = nat entries" using "1.prems"(3) by simp
    have i1: "0 \<le> i + 1" "i + 1 \<le> entries" using "1.prems"(1) True by simp_all
    from "1.IH" [OF True rf [symmetric] refl i1 len1 [unfolded c_def] data1]
    obtain pal r' where
      ih: "parsePalette_loop r1 (i + 1) entries (palette[nat i := c]) = (Inr pal, r')"
          "pos r' = pos r1 + 4 * nat (entries - (i + 1))" "content r' = content r1"
          "seeker r' = seeker r1" "length pal = nat entries"
          "\<And>j. j < nat (i + 1) \<Longrightarrow> pal ! j = palette[nat i := c] ! j"
          "\<And>j. nat (i + 1) \<le> j \<and> j < nat entries
                  \<Longrightarrow> pal ! j = paletteEntry (remaining r1) (j - nat (i + 1))"
      unfolding c_def by blast
    have eq: "parsePalette_loop r i entries palette = (Inr pal, r')"
      using True rf ih(1) by (subst parsePalette_loop.simps) (simp add: c_def)
    have p: "pos r' = pos r + 4 * nat (entries - i)"
      using ih(2) unfolding cnt by (simp add: r1_def)
    have ni: "nat (i + 1) = Suc (nat i)" using "1.prems"(1) by simp
    have ilt: "nat i < length palette" using "1.prems"(1,3) True by simp
    have low: "pal ! j = palette ! j" if "j < nat i" for j
      using ih(6) [of j] that ni by simp
    have shift: "paletteEntry (remaining r1) k = paletteEntry (remaining r) (Suc k)"
      if "4 * Suc k + 4 \<le> length (remaining r) + 4" for k
      using that by (simp add: paletteEntry_def rem1 add.commute)
    have high: "pal ! j = paletteEntry (remaining r) (j - nat i)"
      if h: "nat i \<le> j \<and> j < nat entries" for j
    proof (cases "j = nat i")
      case True
      then have "pal ! j = palette[nat i := c] ! nat i" using ih(6) [of j] ni by simp
      also have "\<dots> = c" using ilt by simp
      finally show ?thesis using True c0 by simp
    next
      case False
      with h have h1: "nat (i + 1) \<le> j \<and> j < nat entries" using ni by simp
      have sj: "Suc (nat i) \<le> j" "j < nat entries" using h1 ni by simp_all
      have jk: "j - nat i = Suc (j - nat (i + 1))" unfolding ni using sj(1) by arith
      have nd: "nat (entries - (i + 1)) = nat entries - Suc (nat i)"
        using i1 ni by (simp add: nat_diff_distrib)
      have "j - nat (i + 1) < nat (entries - (i + 1))" unfolding nd ni using sj by arith
      then have "4 * Suc (j - nat (i + 1)) \<le> 4 * nat (entries - (i + 1))" by simp
      then have b: "4 * Suc (j - nat (i + 1)) + 4 \<le> length (remaining r) + 4"
        using data1 unfolding rem1 by simp
      show ?thesis using ih(7) [OF h1] shift [OF b] jk by simp
    qed
    show ?thesis using eq p ih(3,4,5) low high by (simp add: r1_def)
  qed
qed

lemma parsePalette_loop_short:
  assumes "length (remaining r) < 4 * nat (entries - i)"
  shows "\<exists>e r'. parsePalette_loop r i entries palette = (Inl e, r')
           \<and> (e = EOF \<or> e = ErrUnexpectedEOF)"
  using assms
proof (induction r i entries palette rule: parsePalette_loop.induct)
  case (1 r i entries palette)
  from "1.prems" have True: "i < entries" by (cases "i < entries") simp_all
  then have cnt: "nat (entries - i) = Suc (nat (entries - (i + 1)))" by simp
  show ?case
  proof (cases "4 \<le> length (remaining r)")
    case False
    then have "length (remaining r) < 4" by simp
    from ReadFull_short [OF this] obtain e r' where
      "ReadFull r 4 = (Inl e, r')" "e = EOF \<or> e = ErrUnexpectedEOF" by blast
    then show ?thesis using True by (subst parsePalette_loop.simps) simp
  next
    case enough: True
    define bgr where "bgr = take 4 (remaining r)"
    define r1 where "r1 = r\<lparr>pos := pos r + 4\<rparr>"
    have rf: "ReadFull r 4 = (Inr bgr, r1)"
      unfolding bgr_def r1_def by (rule ReadFull_enough [OF enough])
    have rem1: "remaining r1 = drop 4 (remaining r)"
      by (simp add: r1_def remaining_def add.commute)
    have short1: "length (remaining r1) < 4 * nat (entries - (i + 1))"
      using "1.prems" enough unfolding cnt rem1 by simp
    from "1.IH" [OF True rf [symmetric] refl short1]
    show ?thesis using True rf by (subst parsePalette_loop.simps) simp
  qed
qed

lemma sint_shl1_64:
  assumes "n \<le> 8"
  shows "sint (push_bit n (1 :: 64 word)) = 2 ^ n"
proof -
  have "n \<in> {0, 1, 2, 3, 4, 5, 6, 7, 8}" using assms by auto
  then show ?thesis by (elim insertE emptyE) simp_all
qed

text \<open>The number of palette entries: the colour count when it is not zero, else
  \<open>2 ^ bitCount\<close>.\<close>

definition paletteCount :: "InfoHeader \<Rightarrow> nat" where
  "paletteCount info =
     (if ClrUsed info \<noteq> 0 then unat (ClrUsed info) else 2 ^ unat (BitCount info))"

lemma palette_entries:
  assumes "\<not> (8 < BitCount info \<and> ClrUsed info = 0)"
  shows "paletteEntries info = int (paletteCount info)"
proof (cases "ClrUsed info = 0")
  case True
  with assms have "BitCount info \<le> 8" by simp
  then have "unat (BitCount info) \<le> 8" by (simp add: word_le_nat_alt)
  from sint_shl1_64 [OF this] show ?thesis
    using True by (simp add: paletteCount_def paletteEntries_def)
next
  case False
  then have "0 < ClrUsed info" by (simp add: word_gt_0)
  then show ?thesis using False by (simp add: paletteCount_def paletteEntries_def)
qed

lemma parsePalette_unfold:
  assumes "\<not> (8 < BitCount info \<and> ClrUsed info = 0)"
  shows "parsePalette r info
           = Return (parsePalette_loop r 0 (int (paletteCount info))
                       (replicate (paletteCount info) zeroRGBA))"
  using assms by (auto simp add: parsePalette_def Let_def palette_entries [OF assms])

text \<open>
  Claim C8. Above 8 bits per pixel with a zero colour count \<open>parsePalette\<close> returns the
  empty palette and leaves the stream where it was. Otherwise it reads
  \<open>paletteCount\<close> entries of four bytes each, entry \<open>j\<close> taking red, green and blue
  from bytes \<open>4j+2\<close>, \<open>4j+1\<close> and \<open>4j\<close>, dropping byte \<open>4j+3\<close> and setting alpha to 255;
  if fewer than \<open>4 * paletteCount\<close> bytes are left it returns an I/O error.
\<close>

theorem parsePalette_table:
  "(8 < BitCount info \<and> ClrUsed info = 0 \<longrightarrow> parsePalette r info = Return (Inr [], r)) \<and>
   (\<not> (8 < BitCount info \<and> ClrUsed info = 0) \<longrightarrow>
      (4 * paletteCount info \<le> length (remaining r) \<longrightarrow>
         (\<exists>pal r'. parsePalette r info = Return (Inr pal, r')
            \<and> length pal = paletteCount info
            \<and> pos r' = pos r + 4 * paletteCount info \<and> content r' = content r
            \<and> (\<forall>j < paletteCount info. pal ! j = paletteEntry (remaining r) j)))
      \<and> (length (remaining r) < 4 * paletteCount info \<longrightarrow>
         (\<exists>e r'. parsePalette r info = Return (Inl e, r') \<and> is_io_error e)))"
proof (intro conjI impI)
  assume "8 < BitCount info \<and> ClrUsed info = 0"
  then show "parsePalette r info = Return (Inr [], r)" by (simp add: parsePalette_def)
next
  assume c: "\<not> (8 < BitCount info \<and> ClrUsed info = 0)"
    and d: "4 * paletteCount info \<le> length (remaining r)"
  let ?n = "paletteCount info"
  from parsePalette_loop_complete [of 0 "int ?n" "replicate ?n zeroRGBA" r] d
  obtain pal r' where
    "parsePalette_loop r 0 (int ?n) (replicate ?n zeroRGBA) = (Inr pal, r')"
    "pos r' = pos r + 4 * ?n" "content r' = content r" "length pal = ?n"
    "\<forall>j. j < ?n \<longrightarrow> pal ! j = paletteEntry (remaining r) j"
    by auto
  then show "\<exists>pal r'. parsePalette r info = Return (Inr pal, r')
            \<and> length pal = ?n \<and> pos r' = pos r + 4 * ?n \<and> content r' = content r
            \<and> (\<forall>j < ?n. pal ! j = paletteEntry (remaining r) j)"
    unfolding parsePalette_unfold [OF c] by simp
next
  assume c: "\<not> (8 < BitCount info \<and> ClrUsed info = 0)"
    and d: "length (remaining r) < 4 * paletteCount info"
  let ?n = "paletteCount info"
  from parsePalette_loop_short [of r "int ?n" 0 "replicate ?n zeroRGBA"] d
  obtain e r' where
    "parsePalette_loop r 0 (int ?n) (replicate ?n zeroRGBA) = (Inl e, r')"
    "e = EOF \<or> e = ErrUnexpectedEOF"
    by auto
  then show "\<exists>e r'. parsePalette r info = Return (Inl e, r') \<and> is_io_error e"
    unfolding parsePalette_unfold [OF c] by (auto simp add: is_io_error_def)
qed

definition palette_example_info :: InfoHeader where
  "palette_example_info = zeroInfoHeader\<lparr>BitCount := 1\<rparr>"

definition palette_example_reader :: "byte list \<Rightarrow> reader" where
  "palette_example_reader bs = \<lparr>content = bs, pos = 0, seeker = SeekOk\<rparr>"

theorem parsePalette_table_witness:
  "parsePalette (palette_example_reader []) (zeroInfoHeader\<lparr>BitCount := 16\<rparr>)
     = Return (Inr [], palette_example_reader [])
   \<and> (\<exists>pal r'. parsePalette (palette_example_reader [1, 2, 3, 4, 5, 6, 7, 8])
                  palette_example_info = Return (Inr pal, r')
         \<and> length pal = 2 \<and> pos r' = 8
         \<and> pal ! 1 = \<lparr>R8 = 7, G8 = 6, B8 = 5, A8 = 255\<rparr>)
   \<and> (\<exists>e r'. parsePalette (palette_example_reader [1, 2, 3, 4, 5, 6, 7])
                palette_example_info = Return (Inl e, r') \<and> is_io_error e)"
proof -
  have n: "paletteCount palette_example_info = 2"
    by (simp add: paletteCount_def palette_example_info_def zeroInfoHeader_def)
  have c: "\<not> (8 < BitCount palette_example_info \<and> ClrUsed palette_example_info = 0)"
    by (simp add: palette_example_info_def)
  have a: "parsePalette (palette_example_reader []) (zeroInfoHeader\<lparr>BitCount := 16\<rparr>)
     = Return (Inr [], palette_example_reader [])"
    using parsePalette_table [of "zeroInfoHeader\<lparr>BitCount := 16\<rparr>" "palette_example_reader []"]
    by (simp add: zeroInfoHeader_def)
  have "\<exists>pal r'. parsePalette (palette_example_reader [1, 2, 3, 4, 5, 6, 7, 8])
                  palette_example_info = Return (Inr pal, r')
         \<and> length pal = 2 \<and> pos r' = 8 \<and> content r' = [1, 2, 3, 4, 5, 6, 7, 8]
         \<and> (\<forall>j < 2. pal ! j = paletteEntry [1, 2, 3, 4, 5, 6, 7, 8] j)"
    using parsePalette_table [of palette_example_info
        "palette_example_reader [1, 2, 3, 4, 5, 6, 7, 8]"] c
    by (simp add: n palette_example_reader_def remaining_def)
  then obtain pal r' where
    p: "parsePalette (palette_example_reader [1, 2, 3, 4, 5, 6, 7, 8]) palette_example_info
          = Return (Inr pal, r')" "length pal = 2" "pos r' = 8"
       "\<forall>j < 2. pal ! j = paletteEntry [1, 2, 3, 4, 5, 6, 7, 8] j"
    by blast
  from p(4) have "pal ! 1 = paletteEntry [1, 2, 3, 4, 5, 6, 7, 8] 1" by simp
  then have "pal ! 1 = \<lparr>R8 = 7, G8 = 6, B8 = 5, A8 = 255\<rparr>"
    by (simp add: paletteEntry_def)
  with p(1,2,3) have b: "\<exists>pal r'. parsePalette (palette_example_reader [1, 2, 3, 4, 5, 6, 7, 8])
                  palette_example_info = Return (Inr pal, r')
         \<and> length pal = 2 \<and> pos r' = 8
         \<and> pal ! 1 = \<lparr>R8 = 7, G8 = 6, B8 = 5, A8 = 255\<rparr>"
    by blast
  have d: "\<exists>e r'. parsePalette (palette_example_reader [1, 2, 3, 4, 5, 6, 7])
                palette_example_info = Return (Inl e, r') \<and> is_io_error e"
    using parsePalette_table [of palette_example_info
        "palette_example_reader [1, 2, 3, 4, 5, 6, 7]"] c
    by (simp add: n palette_example_reader_def remaining_def)
  from a b d show ?thesis by blast
qed

subsection \<open>Little-endian fields\<close>

lemma byte_lt_256: "uint (a :: byte) < 256"
  using uint_lt2p [of a] by simp

lemma le16_cat: "le16 [a, b] = word_cat b a"
  unfolding le16_def
  by (rule bit_eqI)
    (auto simp add: bit_or_iff bit_ucast_iff bit_push_bit_iff bit_word_cat_iff
      dest: bit_imp_le_length)

lemma le32_cat: "le32 [a, b, c, d] = word_cat (word_cat d c :: uint16) (word_cat b a :: uint16)"
  unfolding le32_def
  by (rule bit_eqI)
    (auto simp add: bit_or_iff bit_ucast_iff bit_push_bit_iff bit_word_cat_iff
      dest: bit_imp_le_length)

lemma uint_cat_8_8: "uint (word_cat (b :: byte) (a :: byte) :: uint16) = uint a + 256 * uint b"
proof -
  have l: "uint a < 256" "uint b < 256" by (rule byte_lt_256)+
  have ua: "uint (ucast a :: uint16) = uint a" by (simp add: uint_up_ucast is_up)
  have ub: "uint (ucast b :: uint16) = uint b" by (simp add: uint_up_ucast is_up)
  have m: "uint (ucast b * 256 :: uint16) = uint b * 256"
    using l by (simp add: uint_word_ariths ub)
  have "uint (ucast b * 256 + ucast a :: uint16) = uint b * 256 + uint a"
    using l by (simp add: uint_word_ariths ua ub)
  then show ?thesis by (simp add: word_cat_eq push_bit_eq_mult add.commute)
qed

lemma uint_cat_16_16:
  "uint (word_cat (hi :: uint16) (lo :: uint16) :: uint32) = uint lo + 65536 * uint hi"
proof -
  have l: "uint lo < 65536" "uint hi < 65536"
    using uint_lt2p [of lo] uint_lt2p [of hi] by simp_all
  have ua: "uint (ucast lo :: uint32) = uint lo" by (simp add: uint_up_ucast is_up)
  have ub: "uint (ucast hi :: uint32) = uint hi" by (simp add: uint_up_ucast is_up)
  have "uint (ucast hi * 65536 + ucast lo :: uint32) = uint hi * 65536 + uint lo"
    using l by (simp add: uint_word_ariths ua ub)
  then show ?thesis by (simp add: word_cat_eq push_bit_eq_mult add.commute)
qed

lemma le16_value: "uint (le16 [a, b]) = uint a + 256 * uint b"
  by (simp add: le16_cat uint_cat_8_8)

lemma le32_value:
  "uint (le32 [a, b, c, d]) = uint a + 256 * uint b + 65536 * uint c + 16777216 * uint d"
  by (simp add: le32_cat uint_cat_16_16 uint_cat_8_8)


subsection \<open>The file header and the signature\<close>

lemma readFileHeader_complete:
  assumes "14 \<le> length (remaining r)"
  shows "readFileHeader r
           = (Inr \<lparr>Signature = take 2 (remaining r),
                   FileSize = le32 (slice (take 14 (remaining r)) 2 6),
                   Reserved = le32 (slice (take 14 (remaining r)) 6 10),
                   DataOffset = le32 (slice (take 14 (remaining r)) 10 14)\<rparr>,
              r\<lparr>pos := pos r + 14\<rparr>)"
  using assms by (simp add: readFileHeader_def ReadFull_enough slice_def min_def)

lemma readFileHeader_short:
  assumes "length (remaining r) < 14"
  shows "\<exists>e r'. readFileHeader r = (Inl e, r') \<and> (e = EOF \<or> e = ErrUnexpectedEOF)"
proof -
  from ReadFull_short [OF assms] obtain e r' where
    "ReadFull r 14 = (Inl e, r')" "e = EOF \<or> e = ErrUnexpectedEOF" by blast
  then show ?thesis by (simp add: readFileHeader_def)
qed

text \<open>
  Claim C6 says that every stream whose first two bytes are not \<open>BM\<close> fails with a
  format error. \<open>Decode\<close> reads the whole 14-byte file header before it looks at the
  signature, so a shorter stream fails with the error of the read: the two-byte stream
  \<open>XY\<close> gives \<open>io.ErrUnexpectedEOF\<close>.
\<close>

theorem bad_signature_short_stream:
  "take 2 (remaining \<lparr>content = [0x58, 0x59], pos = 0, seeker = SeekOk\<rparr>) \<noteq> [0x42, 0x4D]
   \<and> Decode \<lparr>content = [0x58, 0x59], pos = 0, seeker = SeekOk\<rparr>
       = Return ((None, Some ErrUnexpectedEOF), \<lparr>content = [0x58, 0x59], pos = 2, seeker = SeekOk\<rparr>)
   \<and> \<not> is_format_error ErrUnexpectedEOF"
  by (simp add: Decode_def readFileHeader_def ReadFull_def remaining_def is_format_error_def)

text \<open>
  Claim C6, amended. A stream of at least 14 bytes whose first two bytes are not \<open>BM\<close>
  fails with the invalid-signature format error and no image, having consumed the 14
  bytes of the file header and nothing else, so no later stage has run. A stream of
  fewer than 14 bytes, whatever its first bytes are, fails with no image and the error
  of the short read, which is \<open>io.EOF\<close> or \<open>io.ErrUnexpectedEOF\<close>.
\<close>

theorem bad_signature_rejected:
  "(14 \<le> length (remaining r) \<and> take 2 (remaining r) \<noteq> [0x42, 0x4D] \<longrightarrow>
      Decode r = Return ((None, Some InvalidSignature), r\<lparr>pos := pos r + 14\<rparr>)
      \<and> is_format_error InvalidSignature)
   \<and> (length (remaining r) < 14 \<longrightarrow>
      (\<exists>e r'. Decode r = Return ((None, Some e), r')
         \<and> (e = EOF \<or> e = ErrUnexpectedEOF) \<and> is_io_error e))"
proof (intro conjI impI)
  assume a: "14 \<le> length (remaining r) \<and> take 2 (remaining r) \<noteq> [0x42, 0x4D]"
  then have l: "14 \<le> length (remaining r)" and sig: "take 2 (remaining r) \<noteq> [0x42, 0x4D]"
    by simp_all
  from readFileHeader_complete [OF l] sig
  show "Decode r = Return ((None, Some InvalidSignature), r\<lparr>pos := pos r + 14\<rparr>)"
    by (simp add: Decode_def)
next
  show "is_format_error InvalidSignature" by (simp add: is_format_error_def)
next
  assume "length (remaining r) < 14"
  from readFileHeader_short [OF this] obtain e r' where
    "readFileHeader r = (Inl e, r')" "e = EOF \<or> e = ErrUnexpectedEOF" by blast
  then have "Decode r = Return ((None, Some e), r')
      \<and> (e = EOF \<or> e = ErrUnexpectedEOF) \<and> is_io_error e"
    by (auto simp add: Decode_def is_io_error_def)
  then show "\<exists>e r'. Decode r = Return ((None, Some e), r')
      \<and> (e = EOF \<or> e = ErrUnexpectedEOF) \<and> is_io_error e" by blast
qed

definition bad_signature_example :: reader where
  "bad_signature_example =
     \<lparr>content = [0x58, 0x59, 0, 0, 0, 0, 0, 0, 0, 0, 0, 0, 0, 0, 7], pos = 0, seeker = SeekOk\<rparr>"

definition short_signature_example :: reader where
  "short_signature_example = \<lparr>content = [0x42, 0x4D, 0, 0], pos = 0, seeker = SeekOk\<rparr>"

theorem bad_signature_rejected_witness:
  "14 \<le> length (remaining bad_signature_example)
   \<and> take 2 (remaining bad_signature_example) \<noteq> [0x42, 0x4D]
   \<and> Decode bad_signature_example
        = Return ((None, Some InvalidSignature), bad_signature_example\<lparr>pos := 14\<rparr>)
   \<and> length (remaining short_signature_example) < 14
   \<and> take 2 (remaining short_signature_example) = [0x42, 0x4D]
   \<and> (\<exists>e r'. Decode short_signature_example = Return ((None, Some e), r')
         \<and> (e = EOF \<or> e = ErrUnexpectedEOF) \<and> is_io_error e)"
proof -
  have a: "14 \<le> length (remaining bad_signature_example)
      \<and> take 2 (remaining bad_signature_example) \<noteq> [0x42, 0x4D]"
    by (simp add: bad_signature_example_def remaining_def)
  have b: "length (remaining short_signature_example) < 14"
    by (simp add: short_signature_example_def remaining_def)
  have c: "take 2 (remaining short_signature_example) = [0x42, 0x4D]"
    by (simp add: short_signature_example_def remaining_def)
  have "Decode bad_signature_example
        = Return ((None, Some InvalidSignature), bad_signature_example\<lparr>pos := 14\<rparr>)"
    using bad_signature_rejected [of bad_signature_example] a
    by (simp add: bad_signature_example_def)
  moreover have "\<exists>e r'. Decode short_signature_example = Return ((None, Some e), r')
         \<and> (e = EOF \<or> e = ErrUnexpectedEOF) \<and> is_io_error e"
    using bad_signature_rejected [of short_signature_example] b by blast
  ultimately show ?thesis using a b c by blast
qed

subsection \<open>The header variants\<close>

lemma Decode_header_size:
  assumes rem: "remaining r = [0x42, 0x4D] @ fh @ hs @ rest"
    and len: "length fh = 12" "length hs = 4"
  shows "Decode r =
     (case readInfoHeader (r\<lparr>pos := pos r + 18\<rparr>) (le32 hs) of
        (Inl e, r3) \<Rightarrow> Return ((None, Some e), r3)
      | (Inr info, r3) \<Rightarrow>
          (case parsePalette r3 info of
             Panic \<Rightarrow> Panic
           | Return (Inl e, r4) \<Rightarrow> Return ((None, Some e), r4)
           | Return (Inr palette, r4) \<Rightarrow>
               (case (if Compression info = biBitFields then readMasks r4 info
                      else (Inr info, r4)) of
                  (Inl e, r5) \<Rightarrow> Return ((None, Some e), r5)
                | (Inr info', r5) \<Rightarrow>
                    (case Seek r5 (unat (le32 (drop 8 fh))) of
                       (Panic, r6) \<Rightarrow> Panic
                     | (Return (Inl e), r6) \<Rightarrow> Return ((None, Some e), r6)
                     | (Return (Inr u), r6) \<Rightarrow> decodePixelData r6 info' palette))))"
proof -
  have l14: "14 \<le> length (remaining r)" using rem len by simp
  have sig: "take 2 (remaining r) = [0x42, 0x4D]" using rem by simp
  have off: "slice (take 14 (remaining r)) 10 14 = drop 8 fh"
    using rem len by (simp add: slice_def)
  let ?r1 = "r\<lparr>pos := pos r + 14\<rparr>"
  have rem1: "remaining ?r1 = hs @ rest"
  proof -
    have "remaining ?r1 = drop 14 (remaining r)" by (simp add: remaining_def add.commute)
    then show ?thesis using rem len by simp
  qed
  have rf: "ReadFull ?r1 4 = (Inr hs, r\<lparr>pos := pos r + 18\<rparr>)"
    using ReadFull_enough [of 4 ?r1] rem1 len by simp
  show ?thesis
    unfolding Decode_def readFileHeader_complete [OF l14] using sig off rf
    by (simp cong: prod.case_cong sum.case_cong outcome.case_cong)
qed

text \<open>
  Claim C7. The header parser branches on the size tag. For 12 it reads four 16-bit
  fields, width and height widened without sign, and sets the compression to none; for
  40 it reads 36 bytes and takes the 32-bit width and height, the 16-bit planes and bit
  count and the 32-bit compression from the first 16 of them; for any other tag
  \<open>Decode\<close> fails with the unsupported-header format error, having read the file header
  and the tag only.
\<close>

theorem header_variants:
  "(remaining r = [w0, w1, h0, h1, p0, p1, b0, b1] @ rest \<longrightarrow>
      (\<exists>info. readInfoHeader r 12 = (Inr info, r\<lparr>pos := pos r + 8\<rparr>)
         \<and> Size info = 12
         \<and> sint (Width info) = uint w0 + 256 * uint w1
         \<and> sint (Height info) = uint h0 + 256 * uint h1
         \<and> uint (Planes info) = uint p0 + 256 * uint p1
         \<and> uint (BitCount info) = uint b0 + 256 * uint b1
         \<and> Compression info = biRGB))
   \<and> (remaining r = [w0, w1, w2, w3, h0, h1, h2, h3, p0, p1, b0, b1, c0, c1, c2, c3] @ rest
        \<and> length rest = 20 + k \<longrightarrow>
      (\<exists>info. readInfoHeader r 40 = (Inr info, r\<lparr>pos := pos r + 36\<rparr>)
         \<and> Size info = 40
         \<and> uint (Width info) = uint w0 + 256 * uint w1 + 65536 * uint w2 + 16777216 * uint w3
         \<and> uint (Height info) = uint h0 + 256 * uint h1 + 65536 * uint h2 + 16777216 * uint h3
         \<and> uint (Planes info) = uint p0 + 256 * uint p1
         \<and> uint (BitCount info) = uint b0 + 256 * uint b1
         \<and> uint (Compression info)
             = uint c0 + 256 * uint c1 + 65536 * uint c2 + 16777216 * uint c3))
   \<and> (hs \<noteq> 12 \<and> hs \<noteq> 40 \<longrightarrow>
        readInfoHeader r hs = (Inl UnsupportedHeader, r) \<and> is_format_error UnsupportedHeader)
   \<and> (remaining r = [0x42, 0x4D] @ fh @ tag @ rest \<and> length fh = 12 \<and> length tag = 4
        \<and> le32 tag \<noteq> 12 \<and> le32 tag \<noteq> 40 \<longrightarrow>
        Decode r = Return ((None, Some UnsupportedHeader), r\<lparr>pos := pos r + 18\<rparr>))"
proof (intro conjI impI)
  assume rem: "remaining r = [w0, w1, h0, h1, p0, p1, b0, b1] @ rest"
  then have rf: "ReadFull r 8 = (Inr [w0, w1, h0, h1, p0, p1, b0, b1], r\<lparr>pos := pos r + 8\<rparr>)"
    using ReadFull_enough [of 8 r] by simp
  have u16: "sint (ucast x :: int32) = uint x" for x :: uint16
  proof -
    have "uint x < 65536" using uint_lt2p [of x] by simp
    moreover have "0 \<le> uint x" by simp
    ultimately have "- 2147483648 \<le> uint x" "uint x < 2147483648" by linarith+
    then have b: "- (2 ^ 31) \<le> uint x" "uint x < 2 ^ 31" by simp_all
    have "sint (ucast x :: int32) = signed_take_bit 31 (uint x)"
      by (simp add: sint_uint uint_up_ucast is_up)
    also have "\<dots> = uint x" using b by (rule signed_take_bit_int_eq_self)
    finally show ?thesis .
  qed
  show "\<exists>info. readInfoHeader r 12 = (Inr info, r\<lparr>pos := pos r + 8\<rparr>)
         \<and> Size info = 12
         \<and> sint (Width info) = uint w0 + 256 * uint w1
         \<and> sint (Height info) = uint h0 + 256 * uint h1
         \<and> uint (Planes info) = uint p0 + 256 * uint p1
         \<and> uint (BitCount info) = uint b0 + 256 * uint b1
         \<and> Compression info = biRGB"
    by (simp add: readInfoHeader_def coreHeaderSize_def rf slice_def le16_value u16 Let_def)
next
  assume "remaining r = [w0, w1, w2, w3, h0, h1, h2, h3, p0, p1, b0, b1, c0, c1, c2, c3] @ rest
        \<and> length rest = 20 + k"
  then have rem: "remaining r = [w0, w1, w2, w3, h0, h1, h2, h3, p0, p1, b0, b1, c0, c1, c2, c3] @ rest"
    and lr: "length rest = 20 + k" by simp_all
  have rf: "ReadFull r 36
      = (Inr ([w0, w1, w2, w3, h0, h1, h2, h3, p0, p1, b0, b1, c0, c1, c2, c3] @ take 20 rest),
         r\<lparr>pos := pos r + 36\<rparr>)"
    using ReadFull_enough [of 36 r] rem lr by simp
  show "\<exists>info. readInfoHeader r 40 = (Inr info, r\<lparr>pos := pos r + 36\<rparr>)
         \<and> Size info = 40
         \<and> uint (Width info) = uint w0 + 256 * uint w1 + 65536 * uint w2 + 16777216 * uint w3
         \<and> uint (Height info) = uint h0 + 256 * uint h1 + 65536 * uint h2 + 16777216 * uint h3
         \<and> uint (Planes info) = uint p0 + 256 * uint p1
         \<and> uint (BitCount info) = uint b0 + 256 * uint b1
         \<and> uint (Compression info)
             = uint c0 + 256 * uint c1 + 65536 * uint c2 + 16777216 * uint c3"
    by (simp add: readInfoHeader_def coreHeaderSize_def infoHeaderSize_def rf slice_def
        le16_value le32_value Let_def)
next
  assume "hs \<noteq> 12 \<and> hs \<noteq> 40"
  then show "readInfoHeader r hs = (Inl UnsupportedHeader, r)"
    by (simp add: readInfoHeader_def coreHeaderSize_def infoHeaderSize_def Let_def)
next
  show "is_format_error UnsupportedHeader" by (simp add: is_format_error_def)
next
  assume a: "remaining r = [0x42, 0x4D] @ fh @ tag @ rest \<and> length fh = 12 \<and> length tag = 4
        \<and> le32 tag \<noteq> 12 \<and> le32 tag \<noteq> 40"
  then have "readInfoHeader (r\<lparr>pos := pos r + 18\<rparr>) (le32 tag)
               = (Inl UnsupportedHeader, r\<lparr>pos := pos r + 18\<rparr>)"
    by (simp add: readInfoHeader_def coreHeaderSize_def infoHeaderSize_def Let_def)
  with a show "Decode r = Return ((None, Some UnsupportedHeader), r\<lparr>pos := pos r + 18\<rparr>)"
    by (simp add: Decode_header_size [of r fh tag rest])
qed

definition core_header_example :: reader where
  "core_header_example =
     \<lparr>content = [2, 0, 0xFF, 0xFF, 1, 0, 8, 0], pos = 0, seeker = SeekOk\<rparr>"

definition info_header_example :: reader where
  "info_header_example =
     \<lparr>content = [2, 0, 0, 0, 0xFF, 0xFF, 0xFF, 0xFF, 1, 0, 16, 0, 3, 0, 0, 0,
                 0, 0, 0, 0, 0, 0, 0, 0, 0, 0, 0, 0, 0, 0, 0, 0, 0, 0, 0, 0],
      pos = 0, seeker = SeekOk\<rparr>"

definition bad_tag_example :: reader where
  "bad_tag_example =
     \<lparr>content = [0x42, 0x4D, 0, 0, 0, 0, 0, 0, 0, 0, 0, 0, 0, 0, 124, 0, 0, 0, 9],
      pos = 0, seeker = SeekOk\<rparr>"

theorem header_variants_witness:
  "(\<exists>info. readInfoHeader core_header_example 12 = (Inr info, core_header_example\<lparr>pos := 8\<rparr>)
      \<and> sint (Width info) = 2 \<and> sint (Height info) = 65535 \<and> uint (BitCount info) = 8
      \<and> Compression info = biRGB)
   \<and> (\<exists>info. readInfoHeader info_header_example 40
               = (Inr info, info_header_example\<lparr>pos := 36\<rparr>)
      \<and> uint (Width info) = 2 \<and> uint (Height info) = 4294967295
      \<and> uint (BitCount info) = 16 \<and> uint (Compression info) = 3)
   \<and> readInfoHeader core_header_example 13 = (Inl UnsupportedHeader, core_header_example)
   \<and> Decode bad_tag_example
       = Return ((None, Some UnsupportedHeader), bad_tag_example\<lparr>pos := 18\<rparr>)"
proof -
  have a: "\<exists>info. readInfoHeader core_header_example 12
               = (Inr info, core_header_example\<lparr>pos := 8\<rparr>)
      \<and> sint (Width info) = 2 \<and> sint (Height info) = 65535 \<and> uint (BitCount info) = 8
      \<and> Compression info = biRGB"
    using header_variants [where r = core_header_example and ?w0.0 = 2 and ?w1.0 = 0
        and ?h0.0 = "0xFF" and ?h1.0 = "0xFF" and ?p0.0 = 1 and ?p1.0 = 0 and ?b0.0 = 8
        and ?b1.0 = 0 and rest = "[]"]
    by (simp add: core_header_example_def remaining_def) blast
  have b: "\<exists>info. readInfoHeader info_header_example 40
               = (Inr info, info_header_example\<lparr>pos := 36\<rparr>)
      \<and> uint (Width info) = 2 \<and> uint (Height info) = 4294967295
      \<and> uint (BitCount info) = 16 \<and> uint (Compression info) = 3"
    using header_variants [where r = info_header_example and ?w0.0 = 2 and ?w1.0 = 0
        and ?w2.0 = 0 and ?w3.0 = 0
        and ?h0.0 = "0xFF" and ?h1.0 = "0xFF" and ?h2.0 = "0xFF" and ?h3.0 = "0xFF"
        and ?p0.0 = 1 and ?p1.0 = 0 and ?b0.0 = 16 and ?b1.0 = 0
        and ?c0.0 = 3 and ?c1.0 = 0 and ?c2.0 = 0 and ?c3.0 = 0
        and rest = "[0, 0, 0, 0, 0, 0, 0, 0, 0, 0, 0, 0, 0, 0, 0, 0, 0, 0, 0, 0]" and k = 0]
    by (simp add: info_header_example_def remaining_def) blast
  have c: "readInfoHeader core_header_example 13 = (Inl UnsupportedHeader, core_header_example)"
    using header_variants [where r = core_header_example and hs = 13] by simp
  have d: "Decode bad_tag_example
       = Return ((None, Some UnsupportedHeader), bad_tag_example\<lparr>pos := 18\<rparr>)"
    using header_variants [where r = bad_tag_example and fh = "[0, 0, 0, 0, 0, 0, 0, 0, 0, 0, 0, 0]"
        and tag = "[124, 0, 0, 0]" and rest = "[9]"]
    by (simp add: bad_tag_example_def remaining_def le32_def)
  from a b c d show ?thesis by blast
qed

subsection \<open>Concrete files\<close>

text \<open>A reader over a byte sequence, positioned at its start, that can seek
  (\<open>bytes.NewReader\<close>).\<close>

definition bytesReader :: "byte list \<Rightarrow> reader" where
  "bytesReader bs = \<lparr>content = bs, pos = 0, seeker = SeekOk\<rparr>"

text \<open>The colour an image shows at a point: \<open>At(x, y)\<close> for the direct-colour images,
  the stored index for a paletted one.\<close>

definition RGBA64At :: "image option \<Rightarrow> int \<Rightarrow> int \<Rightarrow> color_RGBA64 option" where
  "RGBA64At img x y =
     (case img of Some (image_RGBA64 b) \<Rightarrow> Some (PixAt b zeroRGBA64 x y) | _ \<Rightarrow> None)"

definition RGBAAt :: "image option \<Rightarrow> int \<Rightarrow> int \<Rightarrow> color_RGBA option" where
  "RGBAAt img x y =
     (case img of Some (image_RGBA b) \<Rightarrow> Some (PixAt b zeroRGBA x y) | _ \<Rightarrow> None)"

definition ColorIndexAt :: "image option \<Rightarrow> int \<Rightarrow> int \<Rightarrow> byte option" where
  "ColorIndexAt img x y =
     (case img of Some (image_Paletted b p) \<Rightarrow> Some (PixAt b 0 x y) | _ \<Rightarrow> None)"

text \<open>A 1 x 1 image of 16 bits per pixel in bit-fields mode with the masks
  \<open>0xF800\<close>, \<open>0x07E0\<close>, \<open>0x001F\<close> and the pixel word \<open>0xFFFF\<close>.\<close>

definition white565_bmp :: "byte list" where
  "white565_bmp =
     [0x42, 0x4D, 74, 0, 0, 0, 0, 0, 0, 0, 70, 0, 0, 0,
      40, 0, 0, 0, 1, 0, 0, 0, 1, 0, 0, 0, 1, 0, 16, 0, 3, 0, 0, 0,
      0, 0, 0, 0, 0, 0, 0, 0, 0, 0, 0, 0, 0, 0, 0, 0, 0, 0, 0, 0,
      0x00, 0xF8, 0, 0, 0xE0, 0x07, 0, 0, 0x1F, 0x00, 0, 0, 0, 0, 0, 0,
      0xFF, 0xFF, 0, 0]"

text \<open>
  Claim C1 expects R = G = B = \<open>0xFFFF\<close> for this pixel. The expansion ORs in one
  shifted copy of the channel only, which fills ten bits of a 5-bit channel and twelve
  of a 6-bit one: the decoded colour is \<open>(0xFFC0, 0xFFF0, 0xFFC0)\<close>.
\<close>

theorem white565_decodes_below_full:
  "errorOf (Decode (bytesReader white565_bmp)) = None
   \<and> RGBA64At (imageOf (Decode (bytesReader white565_bmp))) 0 0
       = Some \<lparr>R16 = 0xFFC0, G16 = 0xFFF0, B16 = 0xFFC0, A16 = 0xFFFF\<rparr>"
  by code_simp

text \<open>A 1 x 1 image of 1 bit per pixel with a core header and its two palette entries,
  cut off before the pixel data.\<close>

definition truncated_indexed_bmp :: "byte list" where
  "truncated_indexed_bmp =
     [0x42, 0x4D, 38, 0, 0, 0, 0, 0, 0, 0, 34, 0, 0, 0,
      12, 0, 0, 0, 1, 0, 1, 0, 1, 0, 1, 0,
      0, 0, 0, 0, 0xFF, 0xFF, 0xFF, 0]"

text \<open>
  Claim C2 expects no image whenever an error is returned. The pixel read fails with
  \<open>io.EOF\<close> here, and the indexed branch of \<open>decodePixelData\<close> returns the image it
  allocated together with that error.
\<close>

theorem truncated_indexed_returns_image:
  "errorOf (Decode (bytesReader truncated_indexed_bmp)) = Some EOF
   \<and> ColorIndexAt (imageOf (Decode (bytesReader truncated_indexed_bmp))) 0 0 = Some 0"
  by code_simp

text \<open>A 1 x 1 image of 24 bits per pixel stored top-down (height \<open>-1\<close>) with the pixel
  bytes \<open>0x11, 0x22, 0x33\<close>.\<close>

definition topdown24_bmp :: "byte list" where
  "topdown24_bmp =
     [0x42, 0x4D, 58, 0, 0, 0, 0, 0, 0, 0, 54, 0, 0, 0,
      40, 0, 0, 0, 1, 0, 0, 0, 0xFF, 0xFF, 0xFF, 0xFF, 1, 0, 24, 0, 0, 0, 0, 0,
      0, 0, 0, 0, 0, 0, 0, 0, 0, 0, 0, 0, 0, 0, 0, 0, 0, 0, 0, 0,
      0x11, 0x22, 0x33, 0]"

text \<open>
  Claim C3 expects a top-down image to decode all its rows at every depth. The 24-bit
  loop runs while \<open>y < int(info.Height)\<close>, which is never for a negative height: no
  row is read and the pixel keeps the zero colour.
\<close>

theorem topdown24_reads_no_row:
  "errorOf (Decode (bytesReader topdown24_bmp)) = None
   \<and> RGBAAt (imageOf (Decode (bytesReader topdown24_bmp))) 0 0
       = Some \<lparr>R8 = 0, G8 = 0, B8 = 0, A8 = 0\<rparr>"
  by code_simp

text \<open>A 2 x 1 image of 4 bits per pixel whose row starts with the byte \<open>0x12\<close>.\<close>

definition nibbles_info :: InfoHeader where
  "nibbles_info = zeroInfoHeader\<lparr>Width := 2, Height := 1, BitCount := 4\<rparr>"

text \<open>
  Claim C4 expects the first pixel of a byte in its high nibble. Only the 1-bit case
  reverses the bit offset, so at 4 bits column 0 takes the low nibble (2) and column 1
  the high nibble (1).
\<close>

theorem nibbles_low_first:
  "indexedPixel nibbles_info [0x12, 0, 0, 0] 0 = Return 2
   \<and> indexedPixel nibbles_info [0x12, 0, 0, 0] 1 = Return 1
   \<and> ColorIndexAt (imageOf (decodePixelData (bytesReader [0x12, 0, 0, 0]) nibbles_info [])) 0 0
       = Some 2"
  by code_simp

subsection \<open>Orientation of the direct-colour decoders\<close>

lemma bytesPerRow16_fits:
  assumes "0 \<le> width"
  shows "width * 2 \<le> bytesPerRow16 width \<and> 0 \<le> bytesPerRow16 width"
proof -
  have e: "bytesPerRow16 width = (width * 2 + 3) div 4 * 4"
    unfolding bytesPerRow16_def and_not3_int by simp
  have "width * 2 \<le> (width * 2 + 3) div 4 * 4" by presburger
  then show ?thesis unfolding e using assms by linarith
qed

lemma bytesPerRow24_fits:
  assumes "0 \<le> width"
  shows "width * 3 \<le> bytesPerRow24 width \<and> 0 \<le> bytesPerRow24 width"
proof -
  have e: "bytesPerRow24 width = (width * 3 + 3) div 4 * 4"
    unfolding bytesPerRow24_def and_not3_int by simp
  have "width * 3 \<le> (width * 3 + 3) div 4 * 4" by presburger
  then show ?thesis unfolding e using assms by linarith
qed

text \<open>The value a pixel function returns, for stating what a returning call stored.\<close>

definition returned :: "'a \<Rightarrow> 'a outcome \<Rightarrow> 'a" where
  "returned d res = (case res of Panic \<Rightarrow> d | Return c \<Rightarrow> c)"

lemma channel16_Return:
  assumes "snd (maskShift m) \<le> 16"
  shows "\<exists>c. channel16 pixel m = Return c"
  using assms by (cases "maskShift m") (simp add: channel16_def Let_def)

lemma pixel16_Return:
  assumes "snd (maskShift rm) \<le> 16" "snd (maskShift gm) \<le> 16" "snd (maskShift bm) \<le> 16"
    and "0 \<le> x" "x * 2 + 2 \<le> int (length row)"
  shows "\<exists>c. pixel16 rm gm bm row x = Return c"
proof -
  let ?p = "le16 (slice row (nat (x * 2)) (nat (x * 2 + 2)))"
  from channel16_Return [OF assms(1)] obtain r where r: "channel16 ?p rm = Return r" by blast
  from channel16_Return [OF assms(2)] obtain g where g: "channel16 ?p gm = Return g" by blast
  from channel16_Return [OF assms(3)] obtain b where b: "channel16 ?p bm = Return b" by blast
  show ?thesis using assms(4,5) r g b by (simp add: pixel16_def Let_def)
qed

lemma pixel32_Return:
  assumes "0 \<le> x" "x * 4 + 4 \<le> int (length row)"
  shows "\<exists>c. pixel32 rm gm bm am row x = Return c"
  using assms by (simp add: pixel32_def Let_def)

lemma pixel24_Return:
  assumes "0 \<le> x" "x * 3 + 3 \<le> int (length row)"
  shows "\<exists>c. pixel24 row x = Return c"
  using assms by (simp add: pixel24_def Let_def)

lemma returned_Return: "\<exists>c. res = Return c \<Longrightarrow> res = Return (returned d res)"
  by (auto simp add: returned_def)

text \<open>A run of the loops on complete data, for a pixel function that returns on every
  row of the scanline length: the image after it holds, at the target row of each
  scanline, what the pixel function returns there.\<close>

lemma scan_rows_oriented:
  assumes total: "\<And>row x. length row = n \<Longrightarrow> 0 \<le> x \<Longrightarrow> x < width \<Longrightarrow> \<exists>c. px row x = Return c"
    and w: "0 \<le> width" and h: "0 \<le> height"
    and tgt: "\<And>y. tgt y = (if flip then height - 1 - y else y)"
    and data: "nat height * n \<le> length (remaining r)"
  shows "\<exists>img' r'. scan_rows px tgt r \<lparr>Bounds = Rect 0 0 width height, Pix = (\<lambda>_. z)\<rparr>
                      width height n 0 = Return ((img', None), r')
           \<and> pos r' = pos r + nat height * n
           \<and> Bounds img' = Rect 0 0 width height
           \<and> (\<forall>x y. 0 \<le> x \<and> x < width \<and> 0 \<le> y \<and> y < height
                 \<longrightarrow> px (scanline r n (nat y)) x = Return (PixAt img' d x (tgt y)))"
proof -
  let ?img = "\<lparr>Bounds = Rect 0 0 width height, Pix = (\<lambda>_. z)\<rparr>"
  have inj: "inj tgt"
  proof (rule injI)
    fix a b assume "tgt a = tgt b"
    then show "a = b" unfolding tgt by (simp split: if_splits)
  qed
  have tot: "px row x = Return (returned d (px row x))"
    if "length row = n" "0 \<le> x" "x < width" for row x
    using total [OF that] by (rule returned_Return)
  have data0: "nat (height - 0) * n \<le> length (remaining r)" using data by simp
  have "\<exists>img' r'. scan_rows px tgt r ?img width height n 0 = Return ((img', None), r')
       \<and> pos r' = pos r + nat height * n \<and> Bounds img' = Rect 0 0 width height
       \<and> (\<forall>X y'. 0 \<le> X \<and> X < width \<and> 0 \<le> y' \<and> y' < height
                  \<and> In_rect X (tgt y') (Rect 0 0 width height)
             \<longrightarrow> Pix img' (X, tgt y') = returned d (px (scanline r n (nat y')) X))"
    using scan_rows_Return [of n width px "\<lambda>row x. returned d (px row x)" tgt height 0 r ?img,
      OF tot inj data0]
    by simp blast
  then obtain img' r' where
    s: "scan_rows px tgt r ?img width height n 0 = Return ((img', None), r')"
       "pos r' = pos r + nat height * n" "Bounds img' = Rect 0 0 width height"
       "\<And>X y'. 0 \<le> X \<and> X < width \<and> 0 \<le> y' \<and> y' < height
                  \<and> In_rect X (tgt y') (Rect 0 0 width height)
                  \<Longrightarrow> Pix img' (X, tgt y') = returned d (px (scanline r n (nat y')) X)"
    by blast
  have px: "px (scanline r n (nat y)) x = Return (PixAt img' d x (tgt y))"
    if hh: "0 \<le> x \<and> x < width \<and> 0 \<le> y \<and> y < height" for x y
  proof -
    have rng: "0 \<le> tgt y \<and> tgt y < height" using hh by (simp add: tgt)
    then have inr: "In_rect x (tgt y) (Rect 0 0 width height)"
      using hh w h by (simp add: In_rect_Rect)
    have "nat y < nat height" using hh by simp
    then have len: "length (scanline r n (nat y)) = n" using data by (rule scanline_length)
    have "Pix img' (x, tgt y) = returned d (px (scanline r n (nat y)) x)"
      using hh inr by (intro s(4)) simp
    moreover have "PixAt img' d x (tgt y) = Pix img' (x, tgt y)"
      using inr by (simp add: PixAt_def s(3))
    ultimately have b: "PixAt img' d x (tgt y) = returned d (px (scanline r n (nat y)) x)"
      by simp
    have a: "px (scanline r n (nat y)) x = Return (returned d (px (scanline r n (nat y)) x))"
      using hh by (intro tot [OF len]) simp_all
    show ?thesis by (subst a) (simp only: b)
  qed
  have "scan_rows px tgt r ?img width height n 0 = Return ((img', None), r')
           \<and> pos r' = pos r + nat height * n
           \<and> Bounds img' = Rect 0 0 width height
           \<and> (\<forall>x y. 0 \<le> x \<and> x < width \<and> 0 \<le> y \<and> y < height
                 \<longrightarrow> px (scanline r n (nat y)) x = Return (PixAt img' d x (tgt y)))"
    using s(1,2,3) px by simp
  then show ?thesis by blast
qed

lemma read16BitData_complete:
  assumes w: "0 < widthOf info"
    and rm: "rm = (if Compression info = biBitFields then RedMask info else 0xF800)"
    and gm: "gm = (if Compression info = biBitFields then GreenMask info else 0x07E0)"
    and bm: "bm = (if Compression info = biBitFields then BlueMask info else 0x001F)"
    and masks: "snd (maskShift rm) \<le> 16" "snd (maskShift gm) \<le> 16" "snd (maskShift bm) \<le> 16"
    and n: "n = nat (bytesPerRow16 (widthOf info))"
    and data: "nat (heightOf info) * n \<le> length (remaining r)"
  shows "\<exists>img' r'. read16BitData r
                      \<lparr>Bounds = Rect 0 0 (widthOf info) (heightOf info), Pix = (\<lambda>_. z)\<rparr> info
                    = Return ((Some img', None), r')
           \<and> pos r' = pos r + nat (heightOf info) * n
           \<and> (\<forall>x y. 0 \<le> x \<and> x < widthOf info \<and> 0 \<le> y \<and> y < heightOf info
                 \<longrightarrow> pixel16 rm gm bm (scanline r n (nat y)) x
                       = Return (PixAt img' d x (targetRow info (heightOf info) y)))"
proof -
  let ?w = "widthOf info" and ?h = "heightOf info"
  let ?img = "\<lparr>Bounds = Rect 0 0 ?w ?h, Pix = (\<lambda>_. z)\<rparr>"
  have fit: "?w * 2 \<le> bytesPerRow16 ?w" "0 \<le> bytesPerRow16 ?w"
    using bytesPerRow16_fits [of ?w] w by simp_all
  have total: "\<exists>c. pixel16 rm gm bm row x = Return c"
    if "length row = n" "0 \<le> x" "x < ?w" for row x
  proof -
    have "x * 2 + 2 \<le> int (length row)" using that fit by (simp add: n)
    with masks that(2) show ?thesis by (intro pixel16_Return)
  qed
  have hn: "0 \<le> ?h" using heightOf_bounds [of info] by simp
  have tg: "targetRow info ?h y = (if 0 < sint (Height info) then ?h - 1 - y else y)" for y
    by (simp add: targetRow_def)
  from scan_rows_oriented [of n ?w "pixel16 rm gm bm" ?h "targetRow info ?h"
      "0 < sint (Height info)" r z d, OF total _ hn tg data] w
  obtain img' r' where
    s: "scan_rows (pixel16 rm gm bm) (targetRow info ?h) r ?img ?w ?h n 0
          = Return ((img', None), r')"
       "pos r' = pos r + nat ?h * n"
       "\<forall>x y. 0 \<le> x \<and> x < ?w \<and> 0 \<le> y \<and> y < ?h
           \<longrightarrow> pixel16 rm gm bm (scanline r n (nat y)) x
                 = Return (PixAt img' d x (targetRow info ?h y))"
    by auto
  have "read16BitData r ?img info = Return ((Some img', None), r')"
    using fit(2) s(1)
    by (simp add: read16BitData_def Let_def read16BitData_rows_scan nil_on_error_def
        rm [symmetric] gm [symmetric] bm [symmetric] n [symmetric])
  with s(2,3) show ?thesis by blast
qed

lemma read32BitData_complete:
  assumes w: "0 < widthOf info"
    and rm: "rm = (if Compression info = biBitFields then RedMask info else 0x00FF0000)"
    and gm: "gm = (if Compression info = biBitFields then GreenMask info else 0x0000FF00)"
    and bm: "bm = (if Compression info = biBitFields then BlueMask info else 0x000000FF)"
    and am: "am = (if Compression info = biBitFields then AlphaMask info else 0xFF000000)"
    and n: "n = nat (bytesPerRow32 (widthOf info))"
    and data: "nat (heightOf info) * n \<le> length (remaining r)"
  shows "\<exists>img' r'. read32BitData r
                      \<lparr>Bounds = Rect 0 0 (widthOf info) (heightOf info), Pix = (\<lambda>_. z)\<rparr> info
                    = Return ((Some img', None), r')
           \<and> pos r' = pos r + nat (heightOf info) * n
           \<and> (\<forall>x y. 0 \<le> x \<and> x < widthOf info \<and> 0 \<le> y \<and> y < heightOf info
                 \<longrightarrow> pixel32 rm gm bm am (scanline r n (nat y)) x
                       = Return (PixAt img' d x (targetRow info (heightOf info) y)))"
proof -
  let ?w = "widthOf info" and ?h = "heightOf info"
  let ?img = "\<lparr>Bounds = Rect 0 0 ?w ?h, Pix = (\<lambda>_. z)\<rparr>"
  have fit: "0 \<le> bytesPerRow32 ?w" using w by (simp add: bytesPerRow32_def)
  have total: "\<exists>c. pixel32 rm gm bm am row x = Return c"
    if "length row = n" "0 \<le> x" "x < ?w" for row x
  proof -
    have "x * 4 + 4 \<le> int (length row)" using that w by (simp add: n bytesPerRow32_def)
    with that(2) show ?thesis by (intro pixel32_Return)
  qed
  have hn: "0 \<le> ?h" using heightOf_bounds [of info] by simp
  have tg: "targetRow info ?h y = (if 0 < sint (Height info) then ?h - 1 - y else y)" for y
    by (simp add: targetRow_def)
  from scan_rows_oriented [of n ?w "pixel32 rm gm bm am" ?h "targetRow info ?h"
      "0 < sint (Height info)" r z d, OF total _ hn tg data] w
  obtain img' r' where
    s: "scan_rows (pixel32 rm gm bm am) (targetRow info ?h) r ?img ?w ?h n 0
          = Return ((img', None), r')"
       "pos r' = pos r + nat ?h * n"
       "\<forall>x y. 0 \<le> x \<and> x < ?w \<and> 0 \<le> y \<and> y < ?h
           \<longrightarrow> pixel32 rm gm bm am (scanline r n (nat y)) x
                 = Return (PixAt img' d x (targetRow info ?h y))"
    by auto
  have "read32BitData r ?img info = Return ((Some img', None), r')"
    using fit s(1)
    by (simp add: read32BitData_def Let_def read32BitData_rows_scan nil_on_error_def
        rm [symmetric] gm [symmetric] bm [symmetric] am [symmetric] n [symmetric])
  with s(2,3) show ?thesis by blast
qed

lemma read24BitData_complete:
  assumes w: "0 < sint (Width info)" and h: "0 < sint (Height info)"
    and n: "n = nat (bytesPerRow24 (sint (Width info)))"
    and data: "nat (sint (Height info)) * n \<le> length (remaining r)"
  shows "\<exists>img' r'. read24BitData r
                      \<lparr>Bounds = Rect 0 0 (sint (Width info)) (sint (Height info)),
                        Pix = (\<lambda>_. z)\<rparr> info
                    = Return ((Some img', None), r')
           \<and> pos r' = pos r + nat (sint (Height info)) * n
           \<and> (\<forall>x y. 0 \<le> x \<and> x < sint (Width info) \<and> 0 \<le> y \<and> y < sint (Height info)
                 \<longrightarrow> pixel24 (scanline r n (nat y)) x
                       = Return (PixAt img' d x (sint (Height info) - 1 - y)))"
proof -
  let ?w = "sint (Width info)" and ?h = "sint (Height info)"
  let ?img = "\<lparr>Bounds = Rect 0 0 ?w ?h, Pix = (\<lambda>_. z)\<rparr>"
  have fit: "?w * 3 \<le> bytesPerRow24 ?w" "0 \<le> bytesPerRow24 ?w"
    using bytesPerRow24_fits [of ?w] w by simp_all
  have total: "\<exists>c. pixel24 row x = Return c"
    if "length row = n" "0 \<le> x" "x < ?w" for row x
  proof -
    have "x * 3 + 3 \<le> int (length row)" using that fit by (simp add: n)
    with that(2) show ?thesis by (intro pixel24_Return)
  qed
  have hn: "0 \<le> ?h" using h by simp
  have tg: "targetRow info ?h y = (if True then ?h - 1 - y else y)" for y
    using h by (simp add: targetRow_def)
  from scan_rows_oriented [of n ?w pixel24 ?h "targetRow info ?h" True r z d,
      OF total _ hn tg data] w
  obtain img' r' where
    s: "scan_rows pixel24 (targetRow info ?h) r ?img ?w ?h n 0 = Return ((img', None), r')"
       "pos r' = pos r + nat ?h * n"
       "\<forall>x y. 0 \<le> x \<and> x < ?w \<and> 0 \<le> y \<and> y < ?h
           \<longrightarrow> pixel24 (scanline r n (nat y)) x
                 = Return (PixAt img' d x (targetRow info ?h y))"
    by auto
  have "read24BitData r ?img info = Return ((Some img', None), r')"
    using fit(2) s(1)
    by (simp add: read24BitData_def Let_def read24BitData_rows_scan nil_on_error_def
        n [symmetric])
  moreover have "targetRow info ?h y = ?h - 1 - y" for y using h by (simp add: targetRow_def)
  ultimately show ?thesis using s(2,3) by auto
qed

text \<open>
  Orientation at 16 bits per pixel. For a 16-bit image of positive width whose channel
  masks are at most 16 bits wide, whose pixel buffer can be allocated (at most \<open>2^48\<close>
  bytes) and whose pixel data is complete, \<open>decodePixelData\<close> returns an RGBA64 image
  and no error, has read \<open>|height|\<close>
  scanlines, and the pixel at column \<open>x\<close> of row \<open>height - 1 - y\<close> (positive declared
  height) or row \<open>y\<close> (negative) is the pixel computed from scanline \<open>y\<close>.
\<close>

theorem decode16_oriented:
  assumes bc: "BitCount info = 16"
    and w: "0 < widthOf info"
    and rm: "rm = (if Compression info = biBitFields then RedMask info else 0xF800)"
    and gm: "gm = (if Compression info = biBitFields then GreenMask info else 0x07E0)"
    and bm: "bm = (if Compression info = biBitFields then BlueMask info else 0x001F)"
    and masks: "snd (maskShift rm) \<le> 16" "snd (maskShift gm) \<le> 16" "snd (maskShift bm) \<le> 16"
    and fits: "8 * widthOf info * heightOf info \<le> 2 ^ 48"
    and n: "n = nat (bytesPerRow16 (widthOf info))"
    and data: "nat (heightOf info) * n \<le> length (remaining r)"
  shows "\<exists>img r'. decodePixelData r info palette = Return ((Some (image_RGBA64 img), None), r')
           \<and> pos r' = pos r + nat (heightOf info) * n
           \<and> (\<forall>x y. 0 \<le> x \<and> x < widthOf info \<and> 0 \<le> y \<and> y < heightOf info
                 \<longrightarrow> pixel16 rm gm bm (scanline r n (nat y)) x
                       = Return (PixAt img zeroRGBA64 x
                           (if 0 < sint (Height info) then heightOf info - 1 - y else y)))"
proof -
  let ?w = "widthOf info" and ?h = "heightOf info"
  have hn: "0 \<le> ?h" using heightOf_bounds [of info] by simp
  have new: "NewPix 8 (Rect 0 0 ?w ?h) zeroRGBA64
               = Return \<lparr>Bounds = Rect 0 0 ?w ?h, Pix = (\<lambda>_. zeroRGBA64)\<rparr>"
    using w hn fits by (intro NewPix_small) simp_all
  from read16BitData_complete [OF w rm gm bm masks n data, of zeroRGBA64 zeroRGBA64]
  obtain img' r' where
    s: "read16BitData r \<lparr>Bounds = Rect 0 0 ?w ?h, Pix = (\<lambda>_. zeroRGBA64)\<rparr> info
          = Return ((Some img', None), r')"
       "pos r' = pos r + nat ?h * n"
       "\<forall>x y. 0 \<le> x \<and> x < ?w \<and> 0 \<le> y \<and> y < ?h
           \<longrightarrow> pixel16 rm gm bm (scanline r n (nat y)) x
                 = Return (PixAt img' zeroRGBA64 x (targetRow info ?h y))"
    by blast
  have "decodePixelData r info palette = Return ((Some (image_RGBA64 img'), None), r')"
    using bc new s(1) by (simp add: decodePixelData_def Let_def)
  with s(2,3) show ?thesis unfolding targetRow_def by blast
qed

text \<open>
  Orientation at 32 bits per pixel, under the same conditions (no mask can make this
  decoder panic).
\<close>

theorem decode32_oriented:
  assumes bc: "BitCount info = 32"
    and w: "0 < widthOf info"
    and rm: "rm = (if Compression info = biBitFields then RedMask info else 0x00FF0000)"
    and gm: "gm = (if Compression info = biBitFields then GreenMask info else 0x0000FF00)"
    and bm: "bm = (if Compression info = biBitFields then BlueMask info else 0x000000FF)"
    and am: "am = (if Compression info = biBitFields then AlphaMask info else 0xFF000000)"
    and fits: "4 * widthOf info * heightOf info \<le> 2 ^ 48"
    and n: "n = nat (bytesPerRow32 (widthOf info))"
    and data: "nat (heightOf info) * n \<le> length (remaining r)"
  shows "\<exists>img r'. decodePixelData r info palette = Return ((Some (image_RGBA img), None), r')
           \<and> pos r' = pos r + nat (heightOf info) * n
           \<and> (\<forall>x y. 0 \<le> x \<and> x < widthOf info \<and> 0 \<le> y \<and> y < heightOf info
                 \<longrightarrow> pixel32 rm gm bm am (scanline r n (nat y)) x
                       = Return (PixAt img zeroRGBA x
                           (if 0 < sint (Height info) then heightOf info - 1 - y else y)))"
proof -
  let ?w = "widthOf info" and ?h = "heightOf info"
  have hn: "0 \<le> ?h" using heightOf_bounds [of info] by simp
  have new: "NewPix 4 (Rect 0 0 ?w ?h) zeroRGBA
               = Return \<lparr>Bounds = Rect 0 0 ?w ?h, Pix = (\<lambda>_. zeroRGBA)\<rparr>"
    using w hn fits by (intro NewPix_small) simp_all
  from read32BitData_complete [OF w rm gm bm am n data, of zeroRGBA zeroRGBA]
  obtain img' r' where
    s: "read32BitData r \<lparr>Bounds = Rect 0 0 ?w ?h, Pix = (\<lambda>_. zeroRGBA)\<rparr> info
          = Return ((Some img', None), r')"
       "pos r' = pos r + nat ?h * n"
       "\<forall>x y. 0 \<le> x \<and> x < ?w \<and> 0 \<le> y \<and> y < ?h
           \<longrightarrow> pixel32 rm gm bm am (scanline r n (nat y)) x
                 = Return (PixAt img' zeroRGBA x (targetRow info ?h y))"
    by blast
  have "decodePixelData r info palette = Return ((Some (image_RGBA img'), None), r')"
    using bc new s(1) by (simp add: decodePixelData_def Let_def)
  with s(2,3) show ?thesis unfolding targetRow_def by blast
qed

text \<open>
  Orientation at 24 bits per pixel, for a positive declared height, a pixel buffer that
  can be allocated (at most \<open>2^48\<close> bytes) and complete pixel data: scanline \<open>y\<close> lands
  in row \<open>height - 1 - y\<close>, red, green and blue taken from bytes \<open>3x+2\<close>, \<open>3x+1\<close> and
  \<open>3x\<close>.
\<close>

theorem decode24_bottom_up:
  assumes bc: "BitCount info = 24"
    and w: "0 < widthOf info" and h: "0 < sint (Height info)"
    and fits: "4 * widthOf info * heightOf info \<le> 2 ^ 48"
    and n: "n = nat (bytesPerRow24 (widthOf info))"
    and data: "nat (heightOf info) * n \<le> length (remaining r)"
  shows "\<exists>img r'. decodePixelData r info palette = Return ((Some (image_RGBA img), None), r')
           \<and> pos r' = pos r + nat (heightOf info) * n
           \<and> (\<forall>x y. 0 \<le> x \<and> x < widthOf info \<and> 0 \<le> y \<and> y < heightOf info
                 \<longrightarrow> PixAt img zeroRGBA x (heightOf info - 1 - y)
                       = \<lparr>R8 = scanline r n (nat y) ! nat (x * 3 + 2),
                          G8 = scanline r n (nat y) ! nat (x * 3 + 1),
                          B8 = scanline r n (nat y) ! nat (x * 3), A8 = 255\<rparr>)"
proof -
  let ?w = "widthOf info" and ?h = "heightOf info"
  have hh: "?h = sint (Height info)" using h by (simp add: heightOf_def Let_def)
  have ww: "?w = sint (Width info)" by (simp add: widthOf_def)
  have hn: "0 \<le> ?h" using heightOf_bounds [of info] by simp
  have new: "NewPix 4 (Rect 0 0 ?w ?h) zeroRGBA
               = Return \<lparr>Bounds = Rect 0 0 ?w ?h, Pix = (\<lambda>_. zeroRGBA)\<rparr>"
    using w hn fits by (intro NewPix_small) simp_all
  have fit: "?w * 3 \<le> bytesPerRow24 ?w" "0 \<le> bytesPerRow24 ?w"
    using bytesPerRow24_fits [of ?w] w by simp_all
  from read24BitData_complete [of info n r zeroRGBA zeroRGBA] w h n data
  obtain img' r' where
    s: "read24BitData r \<lparr>Bounds = Rect 0 0 ?w ?h, Pix = (\<lambda>_. zeroRGBA)\<rparr> info
          = Return ((Some img', None), r')"
       "pos r' = pos r + nat ?h * n"
       "\<And>x y. 0 \<le> x \<and> x < ?w \<and> 0 \<le> y \<and> y < ?h
           \<Longrightarrow> pixel24 (scanline r n (nat y)) x
                 = Return (PixAt img' zeroRGBA x (?h - 1 - y))"
    unfolding hh [symmetric] ww [symmetric] by blast
  have dec: "decodePixelData r info palette = Return ((Some (image_RGBA img'), None), r')"
    using bc new s(1) by (simp add: decodePixelData_def Let_def)
  have px: "PixAt img' zeroRGBA x (?h - 1 - y)
              = \<lparr>R8 = scanline r n (nat y) ! nat (x * 3 + 2),
                 G8 = scanline r n (nat y) ! nat (x * 3 + 1),
                 B8 = scanline r n (nat y) ! nat (x * 3), A8 = 255\<rparr>"
    if c: "0 \<le> x \<and> x < ?w \<and> 0 \<le> y \<and> y < ?h" for x y
  proof -
    have "nat y < nat ?h" using c by simp
    then have len: "length (scanline r n (nat y)) = n" using data by (rule scanline_length)
    have "x * 3 + 3 \<le> int n" using c fit by (simp add: n)
    then have "pixel24 (scanline r n (nat y)) x
                 = Return \<lparr>R8 = scanline r n (nat y) ! nat (x * 3 + 2),
                     G8 = scanline r n (nat y) ! nat (x * 3 + 1),
                     B8 = scanline r n (nat y) ! nat (x * 3), A8 = 255\<rparr>"
      using c len by (simp add: pixel24_def Let_def)
    with s(3) [OF c] show ?thesis by simp
  qed
  from dec s(2) px show ?thesis by blast
qed

definition rgb565_example_info :: InfoHeader where
  "rgb565_example_info = zeroInfoHeader\<lparr>Width := 1, Height := 2, BitCount := 16\<rparr>"

definition rgb565_example_rows :: "byte list" where
  "rgb565_example_rows = [0x1F, 0, 0, 0, 0, 0xF8, 0, 0]"

lemma maskShift_565:
  "maskShift 0xF800 = (11, 5)" "maskShift 0x07E0 = (5, 6)" "maskShift 0x001F = (0, 5)"
  by code_simp+

theorem decode16_oriented_witness:
  "\<exists>img r'. decodePixelData (bytesReader rgb565_example_rows) rgb565_example_info []
              = Return ((Some (image_RGBA64 img), None), r')
           \<and> pos r' = 8
           \<and> PixAt img zeroRGBA64 0 1 = \<lparr>R16 = 0, G16 = 0, B16 = 0xFFC0, A16 = 0xFFFF\<rparr>
           \<and> PixAt img zeroRGBA64 0 0 = \<lparr>R16 = 0xFFC0, G16 = 0, B16 = 0, A16 = 0xFFFF\<rparr>"
proof -
  let ?i = rgb565_example_info and ?r = "bytesReader rgb565_example_rows"
  have bc: "BitCount ?i = 16" by (simp add: rgb565_example_info_def)
  have wv: "widthOf ?i = 1" by (simp add: rgb565_example_info_def widthOf_def zeroInfoHeader_def)
  have hv: "heightOf ?i = 2" "sint (Height ?i) = 2"
    by (simp_all add: rgb565_example_info_def heightOf_def zeroInfoHeader_def)
  have w: "0 < widthOf ?i" by (simp add: wv)
  have rm: "0xF800 = (if Compression ?i = biBitFields then RedMask ?i else 0xF800)"
    and gm: "0x07E0 = (if Compression ?i = biBitFields then GreenMask ?i else 0x07E0)"
    and bm: "0x001F = (if Compression ?i = biBitFields then BlueMask ?i else 0x001F)"
    by (simp_all add: rgb565_example_info_def zeroInfoHeader_def biBitFields_def)
  have masks: "snd (maskShift 0xF800) \<le> 16" "snd (maskShift 0x07E0) \<le> 16"
    "snd (maskShift 0x001F) \<le> 16"
    by (simp_all add: maskShift_565)
  have fits: "8 * widthOf ?i * heightOf ?i \<le> 2 ^ 48" by (simp add: wv hv)
  have n: "4 = nat (bytesPerRow16 (widthOf ?i))"
    unfolding wv bytesPerRow16_def and_not3_int by simp
  have data: "nat (heightOf ?i) * 4 \<le> length (remaining ?r)"
    by (simp add: hv bytesReader_def rgb565_example_rows_def remaining_def)
  from decode16_oriented [OF bc w rm gm bm masks fits n data, of "[]"]
  obtain img r' where
    d: "decodePixelData ?r ?i [] = Return ((Some (image_RGBA64 img), None), r')" and
    p: "pos r' = pos ?r + nat (heightOf ?i) * 4" and
    q: "\<And>x y. 0 \<le> x \<and> x < widthOf ?i \<and> 0 \<le> y \<and> y < heightOf ?i
          \<Longrightarrow> pixel16 0xF800 0x07E0 0x001F (scanline ?r 4 (nat y)) x
                = Return (PixAt img zeroRGBA64 x
                    (if 0 < sint (Height ?i) then heightOf ?i - 1 - y else y))"
    by blast
  have e0: "pixel16 0xF800 0x07E0 0x001F (scanline ?r 4 (nat 0)) 0
              = Return \<lparr>R16 = 0, G16 = 0, B16 = 0xFFC0, A16 = 0xFFFF\<rparr>"
    by code_simp
  have e1: "pixel16 0xF800 0x07E0 0x001F (scanline ?r 4 (nat 1)) 0
              = Return \<lparr>R16 = 0xFFC0, G16 = 0, B16 = 0, A16 = 0xFFFF\<rparr>"
    by code_simp
  have "PixAt img zeroRGBA64 0 1 = \<lparr>R16 = 0, G16 = 0, B16 = 0xFFC0, A16 = 0xFFFF\<rparr>"
    using q [of 0 0] e0 by (simp add: wv hv)
  moreover have "PixAt img zeroRGBA64 0 0 = \<lparr>R16 = 0xFFC0, G16 = 0, B16 = 0, A16 = 0xFFFF\<rparr>"
    using q [of 0 1] e1 by (simp add: wv hv)
  moreover have "pos r' = 8" using p by (simp add: hv bytesReader_def)
  ultimately show ?thesis using d by blast
qed

definition bgra_example_info :: InfoHeader where
  "bgra_example_info = zeroInfoHeader\<lparr>Width := 1, Height := - 2, BitCount := 32\<rparr>"

definition bgra_example_rows :: "byte list" where
  "bgra_example_rows = [1, 2, 3, 4, 5, 6, 7, 8]"

theorem decode32_oriented_witness:
  "\<exists>img r'. decodePixelData (bytesReader bgra_example_rows) bgra_example_info []
              = Return ((Some (image_RGBA img), None), r')
           \<and> pos r' = 8
           \<and> PixAt img zeroRGBA 0 0 = \<lparr>R8 = 3, G8 = 2, B8 = 1, A8 = 4\<rparr>
           \<and> PixAt img zeroRGBA 0 1 = \<lparr>R8 = 7, G8 = 6, B8 = 5, A8 = 8\<rparr>"
proof -
  let ?i = bgra_example_info and ?r = "bytesReader bgra_example_rows"
  have bc: "BitCount ?i = 32" by (simp add: bgra_example_info_def)
  have wv: "widthOf ?i = 1" by (simp add: bgra_example_info_def widthOf_def zeroInfoHeader_def)
  have hv: "heightOf ?i = 2" "sint (Height ?i) = - 2"
    by (simp_all add: bgra_example_info_def heightOf_def zeroInfoHeader_def)
  have w: "0 < widthOf ?i" by (simp add: wv)
  have rm: "0x00FF0000 = (if Compression ?i = biBitFields then RedMask ?i else 0x00FF0000)"
    and gm: "0x0000FF00 = (if Compression ?i = biBitFields then GreenMask ?i else 0x0000FF00)"
    and bm: "0x000000FF = (if Compression ?i = biBitFields then BlueMask ?i else 0x000000FF)"
    and am: "0xFF000000 = (if Compression ?i = biBitFields then AlphaMask ?i else 0xFF000000)"
    by (simp_all add: bgra_example_info_def zeroInfoHeader_def biBitFields_def)
  have fits: "4 * widthOf ?i * heightOf ?i \<le> 2 ^ 48" by (simp add: wv hv)
  have n: "4 = nat (bytesPerRow32 (widthOf ?i))" by (simp add: wv bytesPerRow32_def)
  have data: "nat (heightOf ?i) * 4 \<le> length (remaining ?r)"
    by (simp add: hv bytesReader_def bgra_example_rows_def remaining_def)
  from decode32_oriented [OF bc w rm gm bm am fits n data, of "[]"]
  obtain img r' where
    d: "decodePixelData ?r ?i [] = Return ((Some (image_RGBA img), None), r')" and
    p: "pos r' = pos ?r + nat (heightOf ?i) * 4" and
    q: "\<And>x y. 0 \<le> x \<and> x < widthOf ?i \<and> 0 \<le> y \<and> y < heightOf ?i
          \<Longrightarrow> pixel32 0x00FF0000 0x0000FF00 0x000000FF 0xFF000000 (scanline ?r 4 (nat y)) x
                = Return (PixAt img zeroRGBA x
                    (if 0 < sint (Height ?i) then heightOf ?i - 1 - y else y))"
    by blast
  have e0: "pixel32 0x00FF0000 0x0000FF00 0x000000FF 0xFF000000 (scanline ?r 4 (nat 0)) 0
              = Return \<lparr>R8 = 3, G8 = 2, B8 = 1, A8 = 4\<rparr>"
    by code_simp
  have e1: "pixel32 0x00FF0000 0x0000FF00 0x000000FF 0xFF000000 (scanline ?r 4 (nat 1)) 0
              = Return \<lparr>R8 = 7, G8 = 6, B8 = 5, A8 = 8\<rparr>"
    by code_simp
  have "PixAt img zeroRGBA 0 0 = \<lparr>R8 = 3, G8 = 2, B8 = 1, A8 = 4\<rparr>"
    using q [of 0 0] e0 by (simp add: wv hv)
  moreover have "PixAt img zeroRGBA 0 1 = \<lparr>R8 = 7, G8 = 6, B8 = 5, A8 = 8\<rparr>"
    using q [of 0 1] e1 by (simp add: wv hv)
  moreover have "pos r' = 8" using p by (simp add: hv bytesReader_def)
  ultimately show ?thesis using d by blast
qed

definition bgr_example_info :: InfoHeader where
  "bgr_example_info = zeroInfoHeader\<lparr>Width := 1, Height := 2, BitCount := 24\<rparr>"

definition bgr_example_rows :: "byte list" where
  "bgr_example_rows = [1, 2, 3, 0, 5, 6, 7, 0]"

theorem decode24_bottom_up_witness:
  "\<exists>img r'. decodePixelData (bytesReader bgr_example_rows) bgr_example_info []
              = Return ((Some (image_RGBA img), None), r')
           \<and> pos r' = 8
           \<and> PixAt img zeroRGBA 0 1 = \<lparr>R8 = 3, G8 = 2, B8 = 1, A8 = 255\<rparr>
           \<and> PixAt img zeroRGBA 0 0 = \<lparr>R8 = 7, G8 = 6, B8 = 5, A8 = 255\<rparr>"
proof -
  let ?i = bgr_example_info and ?r = "bytesReader bgr_example_rows"
  have bc: "BitCount ?i = 24" by (simp add: bgr_example_info_def)
  have wv: "widthOf ?i = 1" by (simp add: bgr_example_info_def widthOf_def zeroInfoHeader_def)
  have hv: "heightOf ?i = 2" "sint (Height ?i) = 2"
    by (simp_all add: bgr_example_info_def heightOf_def zeroInfoHeader_def)
  have w: "0 < widthOf ?i" by (simp add: wv)
  have h: "0 < sint (Height ?i)" by (simp add: hv)
  have fits: "4 * widthOf ?i * heightOf ?i \<le> 2 ^ 48" by (simp add: wv hv)
  have n: "4 = nat (bytesPerRow24 (widthOf ?i))"
    unfolding wv bytesPerRow24_def and_not3_int by simp
  have data: "nat (heightOf ?i) * 4 \<le> length (remaining ?r)"
    by (simp add: hv bytesReader_def bgr_example_rows_def remaining_def)
  from decode24_bottom_up [OF bc w h fits n data, of "[]"]
  obtain img r' where
    d: "decodePixelData ?r ?i [] = Return ((Some (image_RGBA img), None), r')" and
    p: "pos r' = pos ?r + nat (heightOf ?i) * 4" and
    q: "\<And>x y. 0 \<le> x \<and> x < widthOf ?i \<and> 0 \<le> y \<and> y < heightOf ?i
          \<Longrightarrow> PixAt img zeroRGBA x (heightOf ?i - 1 - y)
                = \<lparr>R8 = scanline ?r 4 (nat y) ! nat (x * 3 + 2),
                   G8 = scanline ?r 4 (nat y) ! nat (x * 3 + 1),
                   B8 = scanline ?r 4 (nat y) ! nat (x * 3), A8 = 255\<rparr>"
    by blast
  have s0: "scanline ?r 4 0 = [1, 2, 3, 0]" and s1: "scanline ?r 4 (Suc 0) = [5, 6, 7, 0]"
    by (simp_all add: scanline_def bytesReader_def bgr_example_rows_def)
  have "PixAt img zeroRGBA 0 1 = \<lparr>R8 = 3, G8 = 2, B8 = 1, A8 = 255\<rparr>"
    using q [of 0 0] by (simp add: wv hv s0)
  moreover have "PixAt img zeroRGBA 0 0 = \<lparr>R8 = 7, G8 = 6, B8 = 5, A8 = 255\<rparr>"
    using q [of 0 1] by (simp add: wv hv s1)
  moreover have "pos r' = 8" using p by (simp add: hv bytesReader_def)
  ultimately show ?thesis using d by blast
qed

subsection \<open>Which results carry an image\<close>

lemma scan_rows_error_kind:
  "scan_rows px tgt r img width height n y = Return ((img', Some e), r')
     \<Longrightarrow> e = EOF \<or> e = ErrUnexpectedEOF"
proof (induction px tgt r img width height n y rule: scan_rows.induct)
  case (1 px tgt r img width height n y)
  show ?case
  proof (cases "y < height")
    case False
    with "1.prems" show ?thesis by (subst (asm) scan_rows.simps) simp
  next
    case True
    show ?thesis
    proof (cases "ReadFull r n")
      case (Pair res r1)
      show ?thesis
      proof (cases res)
        case (Inl e')
        with Pair True "1.prems" have "e = e'" by (subst (asm) scan_rows.simps) simp
        with ReadFull_Inl [of r n e' r1] Pair Inl show ?thesis by simp
      next
        case (Inr row)
        with Pair True "1.prems" obtain img1 where
          c: "scan_cols (px row) img width (tgt y) 0 = Return img1" and
          rest: "scan_rows px tgt r1 img1 width height n (y + 1) = Return ((img', Some e), r')"
          by (subst (asm) scan_rows.simps) (auto split: outcome.splits)
        from Pair Inr have rf: "(Inr row, r1) = ReadFull r n" by simp
        show ?thesis by (rule "1.IH" [OF True rf refl c rest])
      qed
    qed
  qed
qed

lemma nil_on_error_shape:
  assumes "nil_on_error res = Return ((oi, oe), r')"
  shows "(oe = None \<longrightarrow> oi \<noteq> None) \<and> (oe \<noteq> None \<longrightarrow> oi = None)"
  using assms
  by (auto simp add: nil_on_error_def split: outcome.splits prod.splits option.splits)

lemma read16BitData_shape:
  assumes "read16BitData r img info = Return ((oi, oe), r')"
  shows "(oe = None \<longrightarrow> oi \<noteq> None) \<and> (oe \<noteq> None \<longrightarrow> oi = None)"
  using assms
  by (auto simp add: read16BitData_def Let_def read16BitData_rows_scan
      split: if_splits dest!: nil_on_error_shape)

lemma read24BitData_shape:
  assumes "read24BitData r img info = Return ((oi, oe), r')"
  shows "(oe = None \<longrightarrow> oi \<noteq> None) \<and> (oe \<noteq> None \<longrightarrow> oi = None)"
  using assms
  by (auto simp add: read24BitData_def Let_def read24BitData_rows_scan
      split: if_splits dest!: nil_on_error_shape)

lemma read32BitData_shape:
  assumes "read32BitData r img info = Return ((oi, oe), r')"
  shows "(oe = None \<longrightarrow> oi \<noteq> None) \<and> (oe \<noteq> None \<longrightarrow> oi = None)"
  using assms
  by (auto simp add: read32BitData_def Let_def read32BitData_rows_scan
      split: if_splits dest!: nil_on_error_shape)

lemma readIndexedData_error_kind:
  assumes "readIndexedData r img info = Return ((img', Some e), r')"
  shows "e = EOF \<or> e = ErrUnexpectedEOF"
  using assms
  by (auto simp add: readIndexedData_def Let_def readIndexedData_rows_scan
      split: if_splits dest!: scan_rows_error_kind)

lemma decodePixelData_shape:
  assumes "decodePixelData r info palette = Return ((oi, oe), r')"
  shows "(oe = None \<longrightarrow> oi \<noteq> None)
       \<and> (oe \<noteq> None \<and> oi \<noteq> None \<longrightarrow>
            (BitCount info = 1 \<or> BitCount info = 4 \<or> BitCount info = 8)
            \<and> (\<exists>b. oi = Some (image_Paletted b palette))
            \<and> (oe = Some EOF \<or> oe = Some ErrUnexpectedEOF))"
proof -
  consider (idx) "BitCount info = 1 \<or> BitCount info = 4 \<or> BitCount info = 8"
    | (b16) "BitCount info = 16" | (b24) "BitCount info = 24" | (b32) "BitCount info = 32"
    | (other) "\<not> (BitCount info = 1 \<or> BitCount info = 4 \<or> BitCount info = 8)"
        "BitCount info \<noteq> 16" "BitCount info \<noteq> 24" "BitCount info \<noteq> 32"
    by blast
  then show ?thesis
  proof cases
    case idx
    with assms obtain img0 img' where
      "readIndexedData r img0 info = Return ((img', oe), r')"
      "oi = Some (image_Paletted img' palette)"
      by (auto simp add: decodePixelData_def Let_def split: outcome.splits)
    then show ?thesis
      using idx readIndexedData_error_kind [of r img0 info img' _ r'] by (cases oe) auto
  next
    case b16
    with assms obtain img0 oi' where
      "read16BitData r img0 info = Return ((oi', oe), r')" "oi = map_option image_RGBA64 oi'"
      by (auto simp add: decodePixelData_def Let_def split: outcome.splits)
    then show ?thesis using read16BitData_shape [of r img0 info oi' oe r'] by auto
  next
    case b24
    with assms obtain img0 oi' where
      "read24BitData r img0 info = Return ((oi', oe), r')" "oi = map_option image_RGBA oi'"
      by (auto simp add: decodePixelData_def Let_def split: outcome.splits)
    then show ?thesis using read24BitData_shape [of r img0 info oi' oe r'] by auto
  next
    case b32
    with assms obtain img0 oi' where
      "read32BitData r img0 info = Return ((oi', oe), r')" "oi = map_option image_RGBA oi'"
      by (auto simp add: decodePixelData_def Let_def split: outcome.splits)
    then show ?thesis using read32BitData_shape [of r img0 info oi' oe r'] by auto
  next
    case other
    with assms show ?thesis by (auto simp add: decodePixelData_def Let_def)
  qed
qed

text \<open>
  What \<open>Decode\<close> returns. A call that returns without error returns an image. A call
  that returns an error returns no image, with one exception: when the pixel read of
  an indexed image fails (\<open>io.EOF\<close> or \<open>io.ErrUnexpectedEOF\<close>), the paletted image
  allocated so far is returned with the error.
\<close>

theorem Decode_image_with_error:
  assumes "Decode r = Return ((oi, oe), r')"
  shows "(oe = None \<longrightarrow> oi \<noteq> None)
       \<and> (oe \<noteq> None \<and> oi \<noteq> None \<longrightarrow>
            (\<exists>b p. oi = Some (image_Paletted b p))
            \<and> (oe = Some EOF \<or> oe = Some ErrUnexpectedEOF))"
proof -
  have "(\<exists>e. oi = None \<and> oe = Some e)
        \<or> (\<exists>r6 info palette. decodePixelData r6 info palette = Return ((oi, oe), r'))"
    using assms
    by (auto simp add: Decode_def
        split: prod.splits sum.splits outcome.splits if_splits)
  then show ?thesis
  proof (elim disjE exE)
    fix e assume "oi = None \<and> oe = Some e"
    then show ?thesis by simp
  next
    fix r6 info palette
    assume "decodePixelData r6 info palette = Return ((oi, oe), r')"
    from decodePixelData_shape [OF this] show ?thesis by blast
  qed
qed

text \<open>A 1 x 2 image of 1 bit per pixel whose second scanline is cut short.\<close>

definition half_row_indexed_bmp :: "byte list" where
  "half_row_indexed_bmp =
     [0x42, 0x4D, 40, 0, 0, 0, 0, 0, 0, 0, 34, 0, 0, 0,
      12, 0, 0, 0, 1, 0, 2, 0, 1, 0, 1, 0,
      0, 0, 0, 0, 0xFF, 0xFF, 0xFF, 0,
      0x80, 0, 0, 0, 0, 0]"

theorem Decode_image_with_error_witness:
  "\<exists>oi r'. Decode (bytesReader half_row_indexed_bmp) = Return ((oi, Some ErrUnexpectedEOF), r')
      \<and> (\<exists>b p. oi = Some (image_Paletted b p))"
proof -
  let ?d = "Decode (bytesReader half_row_indexed_bmp)"
  have e: "errorOf ?d = Some ErrUnexpectedEOF" by code_simp
  have c: "ColorIndexAt (imageOf ?d) 0 1 = Some 1" by code_simp
  from e obtain oi r' where d: "?d = Return ((oi, Some ErrUnexpectedEOF), r')"
    by (cases ?d) (auto simp add: errorOf_def)
  from c d have "oi \<noteq> None" by (cases oi) (simp_all add: imageOf_def ColorIndexAt_def)
  with Decode_image_with_error [OF d] have "\<exists>b p. oi = Some (image_Paletted b p)" by simp
  with d show ?thesis by blast
qed

subsection \<open>Bit order at 1 bit per pixel\<close>

lemma shr_and1_bit: "drop_bit k (b :: byte) AND 1 = of_bool (bit b k)"
  by (simp add: and_one_eq mod_2_eq_odd bit_iff_odd_drop_bit)

text \<open>
  At 1 bit per pixel the index of column \<open>x\<close> is bit \<open>7 - x mod 8\<close> of byte \<open>x div 8\<close> of
  the row, most significant bit first; at 8 bits per pixel it is byte \<open>x\<close>.
\<close>

theorem one_bit_msb_first:
  assumes "0 \<le> x"
  shows "(BitCount info = 1 \<and> x div 8 < int (length row) \<longrightarrow>
            indexedPixel info row x
              = Return (of_bool (bit (row ! nat (x div 8)) (7 - nat (x mod 8)))))
       \<and> (BitCount info = 8 \<and> x < int (length row) \<longrightarrow>
            indexedPixel info row x = Return (row ! nat x))"
proof (intro conjI impI)
  assume a: "BitCount info = 1 \<and> x div 8 < int (length row)"
  have "nat (7 - x mod 8) = 7 - nat (x mod 8)" by (simp add: nat_diff_distrib)
  then show "indexedPixel info row x
      = Return (of_bool (bit (row ! nat (x div 8)) (7 - nat (x mod 8))))"
    using a assms
    by (simp add: indexedPixel_def Let_def sdiv_nonneg smod_nonneg shr_and1_bit)
next
  assume a: "BitCount info = 8 \<and> x < int (length row)"
  then show "indexedPixel info row x = Return (row ! nat x)"
    using assms
    by (simp add: indexedPixel_def Let_def sdiv_nonneg smod_nonneg byte_and_255)
qed

theorem one_bit_msb_first_witness:
  "indexedPixel (zeroInfoHeader\<lparr>BitCount := 1\<rparr>) [0x80, 0x01] 0 = Return 1
   \<and> indexedPixel (zeroInfoHeader\<lparr>BitCount := 1\<rparr>) [0x80, 0x01] 7 = Return 0
   \<and> indexedPixel (zeroInfoHeader\<lparr>BitCount := 1\<rparr>) [0x80, 0x01] 15 = Return 1
   \<and> indexedPixel (zeroInfoHeader\<lparr>BitCount := 8\<rparr>) [0x80, 0x01] 1 = Return 1"
proof -
  let ?i = "zeroInfoHeader\<lparr>BitCount := 1\<rparr>"
  have b: "BitCount ?i = 1" by simp
  have b7: "bit (0x80 :: byte) 7" by code_simp
  have b0: "\<not> bit (0x80 :: byte) 0" by simp
  have c0: "bit (0x01 :: byte) 0" by simp
  have "indexedPixel ?i [0x80, 0x01] 0
          = Return (of_bool (bit ([0x80, 0x01 :: byte] ! nat (0 div 8)) (7 - nat (0 mod 8))))"
    using one_bit_msb_first [of 0 ?i "[0x80, 0x01]"] b by simp
  then have p0: "indexedPixel ?i [0x80, 0x01] 0 = Return 1" by (simp add: b7)
  have "indexedPixel ?i [0x80, 0x01] 7
          = Return (of_bool (bit ([0x80, 0x01 :: byte] ! nat (7 div 8)) (7 - nat (7 mod 8))))"
    using one_bit_msb_first [of 7 ?i "[0x80, 0x01]"] b by simp
  then have p7: "indexedPixel ?i [0x80, 0x01] 7 = Return 0" by (simp add: b0)
  have "indexedPixel ?i [0x80, 0x01] 15
          = Return (of_bool (bit ([0x80, 0x01 :: byte] ! nat (15 div 8)) (7 - nat (15 mod 8))))"
    using one_bit_msb_first [of 15 ?i "[0x80, 0x01]"] b by simp
  then have p15: "indexedPixel ?i [0x80, 0x01] 15 = Return 1" by (simp add: c0)
  have p8: "indexedPixel (zeroInfoHeader\<lparr>BitCount := 8\<rparr>) [0x80, 0x01] 1 = Return 1"
    using one_bit_msb_first [of 1 "zeroInfoHeader\<lparr>BitCount := 8\<rparr>" "[0x80, 0x01]"] by simp
  from p0 p7 p15 p8 show ?thesis by blast
qed

subsection \<open>The colour count of a parsed header\<close>

text \<open>
  Neither branch of the header switch assigns \<open>ClrUsed\<close> or a mask: every header
  \<open>Decode\<close> hands to \<open>parsePalette\<close> has colour count zero, so the palette read has
  \<open>2 ^ bitCount\<close> entries up to 8 bits per pixel and is absent above.
\<close>

theorem parsed_header_ClrUsed_zero:
  assumes "readInfoHeader r hs = (Inr info, r')"
  shows "ClrUsed info = 0 \<and> Size info = hs \<and> (hs = 12 \<or> hs = 40)
       \<and> (BitCount info \<le> 8 \<longrightarrow> paletteCount info = 2 ^ unat (BitCount info))
       \<and> (8 < BitCount info \<longrightarrow> parsePalette r' info = Return (Inr [], r'))"
proof -
  have c: "ClrUsed info = 0 \<and> Size info = hs \<and> (hs = 12 \<or> hs = 40)"
    using assms
    by (auto simp add: readInfoHeader_def Let_def zeroInfoHeader_def coreHeaderSize_def
        infoHeaderSize_def split: if_splits prod.splits sum.splits)
  then show ?thesis by (simp add: paletteCount_def parsePalette_def)
qed

definition core_fields_example :: reader where
  "core_fields_example = \<lparr>content = [4, 0, 4, 0, 1, 0, 8, 0], pos = 0, seeker = SeekOk\<rparr>"

theorem parsed_header_ClrUsed_zero_witness:
  "\<exists>info. readInfoHeader core_fields_example 12 = (Inr info, core_fields_example\<lparr>pos := 8\<rparr>)
      \<and> ClrUsed info = 0 \<and> paletteCount info = 256"
proof -
  have "ReadFull core_fields_example 8
          = (Inr [4, 0, 4, 0, 1, 0, 8, 0], core_fields_example\<lparr>pos := 8\<rparr>)"
    by (simp add: ReadFull_def core_fields_example_def remaining_def)
  then obtain info where
    i: "readInfoHeader core_fields_example 12 = (Inr info, core_fields_example\<lparr>pos := 8\<rparr>)"
       "BitCount info = le16 [8, 0]"
    by (simp add: readInfoHeader_def Let_def coreHeaderSize_def slice_def)
  have "uint (BitCount info) = 8" unfolding i(2) le16_value by simp
  then have b: "BitCount info = 8" by (simp add: word_uint_eq_iff)
  from parsed_header_ClrUsed_zero [OF i(1)] b have "ClrUsed info = 0 \<and> paletteCount info = 256"
    by simp
  with i(1) show ?thesis by blast
qed

end
